theory Spec2Isabelle
  imports Main "HOL-Library.Word"
begin

section \<open>The Keba charger: a UDP request/response exchange\<close>

text \<open>
  The source is one Go file of package \<open>charger\<close>.  Its method \<open>client\<close>
  resolves an address, dials a UDP socket, starts one goroutine that writes the
  payload and reads one reply, and waits in a \<open>select\<close> for either the
  context's cancellation or the goroutine's result.  The four methods of the
  charger interface return a fixed "not implemented" error.

  The two goroutines are modelled as two program counters over one shared
  state; a schedule (a list of ticks) says which of them runs next and when
  the context is cancelled.  Each tick executes one statement of the source.
  Everything the Go standard library or the network decides is a field of a
  record \<open>world\<close>.
\<close>

subsection \<open>Values\<close>

type_synonym byte = "8 word"

text \<open>Points in time and durations in nanoseconds, as \<open>time.Duration\<close> counts them.\<close>

type_synonym time = int

text \<open>
  Go's \<open>error\<close> values.  A value made by \<open>errors.New\<close> is known by its
  text.  The error variables of the library that the code or the library itself
  compares with \<open>==\<close> are values of their own, different from any
  \<open>errors.New\<close> of the same text: \<open>io.EOF\<close>, \<open>io.ErrShortWrite\<close>, the
  invalid-write error of package \<open>io\<close> and \<open>context.Canceled\<close>.  The context
  package has its own type for a passed deadline, and package \<open>net\<close> reports
  failures through its own types (\<open>*net.OpError\<close>, \<open>*net.AddrError\<close>,
  \<open>*net.DNSError\<close>), here one constructor carrying the message.  The nil
  error is \<open>None\<close> of \<open>error option\<close>.
\<close>

datatype error =
    ErrorString string
  | Var_EOF
  | Var_ErrShortWrite
  | Var_errInvalidWrite
  | Var_Canceled
  | DeadlineExceededError
  | NetError string

definition errors_New :: "string \<Rightarrow> error" where
  "errors_New text = ErrorString text"

definition context_Canceled :: error where
  "context_Canceled = Var_Canceled"

definition context_DeadlineExceeded :: error where
  "context_DeadlineExceeded = DeadlineExceededError"

definition io_EOF :: error where
  "io_EOF = Var_EOF"

definition io_ErrShortWrite :: error where
  "io_ErrShortWrite = Var_ErrShortWrite"

definition io_errInvalidWrite :: error where
  "io_errInvalidWrite = Var_errInvalidWrite"

text \<open>What every operation on a closed \<open>net.UDPConn\<close> reports.\<close>

definition ErrNetClosing :: error where
  "ErrNetClosing = NetError ''use of closed network connection''"

datatype UDPAddr = UDPAddr (IP: string) (Port: nat)

datatype ChargeStatus = ChargeStatus string

subsection \<open>Constants of the source\<close>

definition udpBufferSize :: nat where
  "udpBufferSize = 1024"

definition time_Second :: time where
  "time_Second = 1000000000"

definition updTimeout :: time where
  "updTimeout = time_Second"

subsection \<open>The charger\<close>

record Keba =
  log :: string
  conn :: string

definition NewKeba :: "string \<Rightarrow> Keba" where
  "NewKeba c = \<lparr>log = ''keba'', conn = c\<rparr>"

definition Status :: "Keba \<Rightarrow> ChargeStatus \<times> error option" where
  "Status m = (ChargeStatus ''A'', Some (errors_New ''not implemented''))"

definition Enabled :: "Keba \<Rightarrow> bool \<times> error option" where
  "Enabled m = (False, Some (errors_New ''not implemented''))"

definition Enable :: "Keba \<Rightarrow> bool \<Rightarrow> error option" where
  "Enable m enable = Some (errors_New ''not implemented'')"

definition MaxCurrent :: "Keba \<Rightarrow> 64 word \<Rightarrow> error option" where
  "MaxCurrent m current = Some (errors_New ''not implemented'')"

subsection \<open>The library calls that \<open>client\<close> makes\<close>

text \<open>
  \<open>io.Copy(dst, src)\<close>: the reader is the list of the results of its successive
  \<open>Read\<close> calls (the bytes read and the error returned with them); once the
  list is used up, \<open>Read\<close> returns no bytes and \<open>io.EOF\<close>.  The loop writes
  every non-empty chunk, stops at the first write error, short write or read
  error, and does not report the value \<open>io.EOF\<close>.  A write that claims more
  bytes than it was given counts as none and as an invalid write.  The result is
  the number of bytes written, the error, and the chunks handed to
  \<open>dst.Write\<close>.
\<close>

definition checked_Write :: "(byte list \<Rightarrow> nat \<times> error option) \<Rightarrow> byte list
    \<Rightarrow> nat \<times> error option" where
  "checked_Write wr buf =
     (case wr buf of
        (nw, ew) \<Rightarrow>
          if length buf < nw
          then (0, Some (case ew of None \<Rightarrow> io_errInvalidWrite | Some e \<Rightarrow> e))
          else (nw, ew))"

fun io_Copy :: "(byte list \<Rightarrow> nat \<times> error option) \<Rightarrow> (byte list \<times> error option) list
    \<Rightarrow> nat \<times> error option \<times> byte list list" where
  "io_Copy wr [] = (0, None, [])"
| "io_Copy wr ((buf, er) # rest) =
     (if 0 < length buf then
        (case checked_Write wr buf of
           (nw, Some ew) \<Rightarrow> (nw, Some ew, [buf])
         | (nw, None) \<Rightarrow>
             if length buf \<noteq> nw then (nw, Some io_ErrShortWrite, [buf])
             else (case er of
                     Some e \<Rightarrow> (nw, if e = io_EOF then None else Some e, [buf])
                   | None \<Rightarrow>
                       (case io_Copy wr rest of
                          (n, e, ws) \<Rightarrow> (nw + n, e, buf # ws))))
      else (case er of
              Some e \<Rightarrow> (0, if e = io_EOF then None else Some e, [])
            | None \<Rightarrow> io_Copy wr rest))"

text \<open>
  \<open>conn.ReadFrom(buffer)\<close> on a UDP socket: what arrives is an error (the
  deadline passed, the socket failed) or one datagram; a datagram longer than
  the buffer is cut to the buffer's length and the rest is dropped.  The result
  is the byte count, the sender, the error and the buffer afterwards.
\<close>

definition ReadFrom :: "error + byte list \<times> UDPAddr \<Rightarrow> byte list
    \<Rightarrow> nat \<times> UDPAddr option \<times> error option \<times> byte list" where
  "ReadFrom arriving buffer =
     (case arriving of
        Inl e \<Rightarrow> (0, None, Some e, buffer)
      | Inr (payload, sender) \<Rightarrow>
          (min (length payload) (length buffer), Some sender, None,
           take (length buffer) payload @ drop (length payload) buffer))"

subsection \<open>The world of one call\<close>

text \<open>
  The arguments of \<open>client\<close> (the address, the reader, the error the context
  reports once it is done) and the answers of the library for this call.
\<close>

record world =
  address :: string
  reader :: "(byte list \<times> error option) list"
  ctx_Err :: error
  ResolveUDPAddr :: "string \<Rightarrow> error + UDPAddr"
  DialUDP :: "UDPAddr \<Rightarrow> error option"
  conn_Write :: "byte list \<Rightarrow> nat \<times> error option"
  time_Now :: time
  conn_SetReadDeadline :: "time \<Rightarrow> error option"
  arriving :: "error + byte list \<times> UDPAddr"

subsection \<open>State of one call\<close>

datatype sup_pc = S_Resolve | S_Dial | S_Go | S_Select | S_Return | S_Done

datatype bg_pc = B_Idle | B_Copy | B_Deadline | B_Read | B_Send "error option" | B_Done

datatype conn_state = NoConn | Open | Closed

datatype log_line =
    PacketWritten nat
  | PacketReceived nat UDPAddr
  | Cancelled

datatype event =
    EvResolve
  | EvDial "error option"
  | EvGo
  | EvWrite "byte list"
  | EvCopy nat "error option"
  | EvSetReadDeadline time "error option"
  | EvReadFrom "error option"
  | EvSend "error option"
  | EvRecv "error option"
  | EvCtxDone
  | EvClose
  | EvReturn "error option"

record state =
  spc :: sup_pc
  bpc :: bg_pc
  sock :: conn_state
  raddr :: "UDPAddr option"
  doneChan :: "error option list"
  ctx_done :: bool
  err :: "error option"
  buffer :: "byte list"
  read_deadline :: "time option"
  ret :: "error option option"
  tlog :: "log_line list"
  trace :: "event list"

definition init :: state where
  "init = \<lparr>spc = S_Resolve, bpc = B_Idle, sock = NoConn, raddr = None, doneChan = [],
     ctx_done = False, err = None, buffer = [], read_deadline = None, ret = None,
     tlog = [], trace = []\<rparr>"

datatype tick = Sup bool | Bg | Cancel

subsection \<open>The supervising goroutine: the body of \<open>client\<close>\<close>

text \<open>
  One statement per step.  A \<open>return\<close> records the value handed to the caller
  in \<open>ret\<close>; the \<open>return\<close> after the \<open>select\<close> first runs the deferred
  \<open>conn.Close()\<close>.  In the \<open>select\<close>, the flag of the tick is the choice Go
  makes when both cases are ready (\<open>True\<close>: the case \<open>ctx.Done()\<close>); with no
  case ready the goroutine stays blocked.
\<close>

definition sup_resolve :: "world \<Rightarrow> state \<Rightarrow> state" where
  "sup_resolve w s =
     (case ResolveUDPAddr w (address w) of
        Inl e \<Rightarrow> s\<lparr>spc := S_Done, err := Some e, ret := Some (Some e),
                   trace := trace s @ [EvResolve, EvReturn (Some e)]\<rparr>
      | Inr a \<Rightarrow> s\<lparr>spc := S_Dial, raddr := Some a, trace := trace s @ [EvResolve]\<rparr>)"

definition sup_dial :: "world \<Rightarrow> state \<Rightarrow> state" where
  "sup_dial w s =
     (case raddr s of
        None \<Rightarrow> s
      | Some a \<Rightarrow>
          (case DialUDP w a of
             Some e \<Rightarrow> s\<lparr>spc := S_Done, err := Some e, ret := Some (Some e),
                         trace := trace s @ [EvDial (Some e), EvReturn (Some e)]\<rparr>
           | None \<Rightarrow> s\<lparr>spc := S_Go, sock := Open, trace := trace s @ [EvDial None]\<rparr>))"

definition sup_go :: "state \<Rightarrow> state" where
  "sup_go s = s\<lparr>spc := S_Select, bpc := B_Copy, doneChan := [], trace := trace s @ [EvGo]\<rparr>"

definition sup_select :: "world \<Rightarrow> bool \<Rightarrow> state \<Rightarrow> state" where
  "sup_select w pick s =
     (if ctx_done s \<and> (doneChan s = [] \<or> pick) then
        s\<lparr>spc := S_Return, err := Some (ctx_Err w), tlog := tlog s @ [Cancelled],
          trace := trace s @ [EvCtxDone]\<rparr>
      else
        (case doneChan s of
           [] \<Rightarrow> s
         | v # rest \<Rightarrow> s\<lparr>spc := S_Return, err := v, doneChan := rest,
                          trace := trace s @ [EvRecv v]\<rparr>))"

definition sup_return :: "state \<Rightarrow> state" where
  "sup_return s = s\<lparr>spc := S_Done, sock := Closed, ret := Some (err s),
     trace := trace s @ [EvClose, EvReturn (err s)]\<rparr>"

definition sup_step :: "world \<Rightarrow> bool \<Rightarrow> state \<Rightarrow> state" where
  "sup_step w pick s =
     (case spc s of
        S_Resolve \<Rightarrow> sup_resolve w s
      | S_Dial \<Rightarrow> sup_dial w s
      | S_Go \<Rightarrow> sup_go s
      | S_Select \<Rightarrow> sup_select w pick s
      | S_Return \<Rightarrow> sup_return s
      | S_Done \<Rightarrow> s)"

subsection \<open>The background goroutine\<close>

text \<open>
  An operation on the socket after \<open>conn.Close()\<close> fails with
  \<open>ErrNetClosing\<close>; before, the world answers.  A send on \<open>doneChan\<close>
  (capacity 1) blocks while the channel is full.
\<close>

definition sock_Write :: "world \<Rightarrow> state \<Rightarrow> byte list \<Rightarrow> nat \<times> error option" where
  "sock_Write w s b = (if sock s = Open then conn_Write w b else (0, Some ErrNetClosing))"

definition bg_copy :: "world \<Rightarrow> state \<Rightarrow> state" where
  "bg_copy w s =
     (case io_Copy (sock_Write w s) (reader w) of
        (n, Some e, ws) \<Rightarrow>
          s\<lparr>bpc := B_Send (Some e), trace := trace s @ map EvWrite ws @ [EvCopy n (Some e)]\<rparr>
      | (n, None, ws) \<Rightarrow>
          s\<lparr>bpc := B_Deadline, tlog := tlog s @ [PacketWritten n],
            trace := trace s @ map EvWrite ws @ [EvCopy n None]\<rparr>)"

definition bg_deadline :: "world \<Rightarrow> state \<Rightarrow> state" where
  "bg_deadline w s =
     (let deadline = time_Now w + updTimeout;
          r = (if sock s = Open then conn_SetReadDeadline w deadline else Some ErrNetClosing);
          s' = s\<lparr>buffer := replicate udpBufferSize 0,
                 trace := trace s @ [EvSetReadDeadline deadline r]\<rparr>
      in case r of
           Some e \<Rightarrow> s'\<lparr>bpc := B_Send (Some e)\<rparr>
         | None \<Rightarrow> s'\<lparr>bpc := B_Read, read_deadline := Some deadline\<rparr>)"

definition bg_read :: "world \<Rightarrow> state \<Rightarrow> state" where
  "bg_read w s =
     (case ReadFrom (if sock s = Open then arriving w else Inl ErrNetClosing) (buffer s) of
        (nRead, addr, Some e, buf) \<Rightarrow>
          s\<lparr>bpc := B_Send (Some e), buffer := buf, trace := trace s @ [EvReadFrom (Some e)]\<rparr>
      | (nRead, addr, None, buf) \<Rightarrow>
          s\<lparr>bpc := B_Send None, buffer := buf,
            tlog := tlog s @ (case addr of Some a \<Rightarrow> [PacketReceived nRead a] | None \<Rightarrow> []),
            trace := trace s @ [EvReadFrom None]\<rparr>)"

definition bg_send :: "error option \<Rightarrow> state \<Rightarrow> state" where
  "bg_send v s =
     (if length (doneChan s) < 1 then
        s\<lparr>bpc := B_Done, doneChan := doneChan s @ [v], trace := trace s @ [EvSend v]\<rparr>
      else s)"

definition bg_step :: "world \<Rightarrow> state \<Rightarrow> state" where
  "bg_step w s =
     (case bpc s of
        B_Idle \<Rightarrow> s
      | B_Copy \<Rightarrow> bg_copy w s
      | B_Deadline \<Rightarrow> bg_deadline w s
      | B_Read \<Rightarrow> bg_read w s
      | B_Send v \<Rightarrow> bg_send v s
      | B_Done \<Rightarrow> s)"

subsection \<open>Schedules\<close>

definition step :: "world \<Rightarrow> state \<Rightarrow> tick \<Rightarrow> state" where
  "step w s t =
     (case t of
        Sup pick \<Rightarrow> sup_step w pick s
      | Bg \<Rightarrow> bg_step w s
      | Cancel \<Rightarrow> s\<lparr>ctx_done := True\<rparr>)"

definition run :: "world \<Rightarrow> state \<Rightarrow> tick list \<Rightarrow> state" where
  "run w s sched = foldl (step w) s sched"

text \<open>The call \<open>m.client(ctx, address, reader)\<close> under a schedule.\<close>

definition client :: "Keba \<Rightarrow> world \<Rightarrow> tick list \<Rightarrow> state" where
  "client m w sched = run w init sched"

section \<open>Observations\<close>

subsection \<open>Kinds of events\<close>

fun is_send :: "event \<Rightarrow> bool" where
  "is_send (EvSend v) = True"
| "is_send _ = False"

fun is_recv :: "event \<Rightarrow> bool" where
  "is_recv (EvRecv v) = True"
| "is_recv _ = False"

fun is_return :: "event \<Rightarrow> bool" where
  "is_return (EvReturn v) = True"
| "is_return _ = False"

fun is_close :: "event \<Rightarrow> bool" where
  "is_close EvClose = True"
| "is_close _ = False"

fun is_write :: "event \<Rightarrow> bool" where
  "is_write (EvWrite b) = True"
| "is_write _ = False"

fun is_copy :: "event \<Rightarrow> bool" where
  "is_copy (EvCopy n r) = True"
| "is_copy _ = False"

fun is_copy_ok :: "event \<Rightarrow> bool" where
  "is_copy_ok (EvCopy n None) = True"
| "is_copy_ok _ = False"

fun is_copy_fail :: "event \<Rightarrow> bool" where
  "is_copy_fail (EvCopy n (Some e)) = True"
| "is_copy_fail _ = False"

fun is_deadline :: "event \<Rightarrow> bool" where
  "is_deadline (EvSetReadDeadline d r) = True"
| "is_deadline _ = False"

fun is_deadline_ok :: "event \<Rightarrow> bool" where
  "is_deadline_ok (EvSetReadDeadline d None) = True"
| "is_deadline_ok _ = False"

fun is_read :: "event \<Rightarrow> bool" where
  "is_read (EvReadFrom r) = True"
| "is_read _ = False"

fun is_bg :: "event \<Rightarrow> bool" where
  "is_bg (EvWrite b) = True"
| "is_bg (EvCopy n r) = True"
| "is_bg (EvSetReadDeadline d r) = True"
| "is_bg (EvReadFrom r) = True"
| "is_bg (EvSend v) = True"
| "is_bg _ = False"

fun is_received :: "log_line \<Rightarrow> bool" where
  "is_received (PacketReceived n a) = True"
| "is_received _ = False"

fun is_sup :: "tick \<Rightarrow> bool" where
  "is_sup (Sup pick) = True"
| "is_sup _ = False"

definition count :: "(event \<Rightarrow> bool) \<Rightarrow> event list \<Rightarrow> nat" where
  "count P tr = length (filter P tr)"

text \<open>Every event in \<open>Q\<close> has an event in \<open>P\<close> before it.\<close>

fun preceded :: "(event \<Rightarrow> bool) \<Rightarrow> (event \<Rightarrow> bool) \<Rightarrow> event list \<Rightarrow> bool" where
  "preceded P Q [] = True"
| "preceded P Q (e # es) = (if P e then True else \<not> Q e \<and> preceded P Q es)"

text \<open>No event in \<open>Q\<close> comes after an event in \<open>P\<close>.\<close>

fun never_after :: "(event \<Rightarrow> bool) \<Rightarrow> (event \<Rightarrow> bool) \<Rightarrow> event list \<Rightarrow> bool" where
  "never_after P Q [] = True"
| "never_after P Q (e # es) = (if P e then \<not> list_ex Q es else never_after P Q es)"

text \<open>The bytes handed to the socket, in order.\<close>

fun written :: "event list \<Rightarrow> byte list" where
  "written [] = []"
| "written (EvWrite b # es) = b @ written es"
| "written (e # es) = written es"

subsection \<open>The payload and the reply\<close>

text \<open>The bytes a reader delivers up to its first error, \<open>io.EOF\<close> included.\<close>

fun payload :: "(byte list \<times> error option) list \<Rightarrow> byte list" where
  "payload [] = []"
| "payload ((b, None) # rest) = b @ payload rest"
| "payload ((b, Some e) # rest) = b"

text \<open>A reader that delivers no byte and ends with the value \<open>io.EOF\<close>.\<close>

definition payload_empty :: "(byte list \<times> error option) list \<Rightarrow> bool" where
  "payload_empty rd = list_all (\<lambda>(b, er). b = [] \<and> (er = None \<or> er = Some io_EOF)) rd"

text \<open>The reply as the trace log and the buffer show it after a successful \<open>ReadFrom\<close>.\<close>

definition received :: "world \<Rightarrow> log_line list" where
  "received w =
     (case arriving w of
        Inl e \<Rightarrow> []
      | Inr (p, a) \<Rightarrow> [PacketReceived (min (length p) udpBufferSize) a])"

definition filled :: "world \<Rightarrow> byte list" where
  "filled w =
     (case arriving w of
        Inl e \<Rightarrow> replicate udpBufferSize 0
      | Inr (p, a) \<Rightarrow> take udpBufferSize p @ replicate (udpBufferSize - length p) 0)"

subsection \<open>Classes of errors\<close>

fun is_net :: "error \<Rightarrow> bool" where
  "is_net (NetError msg) = True"
| "is_net _ = False"

text \<open>
  The errors of the transport: those of package \<open>net\<close>, the two errors of a
  context, and the short and the invalid write of \<open>io.Copy\<close>.
\<close>

definition transport_error :: "error \<Rightarrow> bool" where
  "transport_error e =
     (is_net e \<or> e = context_Canceled \<or> e = context_DeadlineExceeded \<or>
      e = io_ErrShortWrite \<or> e = io_errInvalidWrite)"

text \<open>The errors the caller's own reader raises.\<close>

definition reader_errors :: "world \<Rightarrow> error list" where
  "reader_errors w = concat (map (\<lambda>(b, er). case er of None \<Rightarrow> [] | Some e \<Rightarrow> [e]) (reader w))"

text \<open>
  The library keeps to its types in this world: the calls of package \<open>net\<close>
  fail with errors of package \<open>net\<close>, and a context that is done reports
  \<open>Canceled\<close> or \<open>DeadlineExceeded\<close>.
\<close>

definition lib_ok :: "world \<Rightarrow> bool" where
  "lib_ok w =
     ((case ResolveUDPAddr w (address w) of
         Inl e \<Rightarrow> is_net e
       | Inr a \<Rightarrow> (case DialUDP w a of Some e \<Rightarrow> is_net e | None \<Rightarrow> True)) \<and>
      list_all (\<lambda>(b, er). case conn_Write w b of (n, Some e) \<Rightarrow> is_net e | (n, None) \<Rightarrow> True)
        (reader w) \<and>
      (case conn_SetReadDeadline w (time_Now w + updTimeout) of
         Some e \<Rightarrow> is_net e | None \<Rightarrow> True) \<and>
      (case arriving w of Inl e \<Rightarrow> is_net e | Inr r \<Rightarrow> True) \<and>
      (ctx_Err w = context_Canceled \<or> ctx_Err w = context_DeadlineExceeded))"

definition err_ok :: "world \<Rightarrow> error \<Rightarrow> bool" where
  "err_ok w e = (transport_error e \<or> e \<in> set (reader_errors w))"

subsection \<open>Invariants of a call\<close>

text \<open>The two program counters, the socket and the returned value.\<close>

definition inv_ctl :: "state \<Rightarrow> bool" where
  "inv_ctl s =
     ((case spc s of
         S_Resolve \<Rightarrow> bpc s = B_Idle \<and> sock s = NoConn \<and> ret s = None \<and> raddr s = None
       | S_Dial \<Rightarrow> bpc s = B_Idle \<and> sock s = NoConn \<and> ret s = None \<and> raddr s \<noteq> None
       | S_Go \<Rightarrow> bpc s = B_Idle \<and> sock s = Open \<and> ret s = None
       | S_Select \<Rightarrow> bpc s \<noteq> B_Idle \<and> sock s = Open \<and> ret s = None
       | S_Return \<Rightarrow> bpc s \<noteq> B_Idle \<and> sock s = Open \<and> ret s = None
       | S_Done \<Rightarrow> ret s = Some (err s) \<and>
           (if bpc s = B_Idle then sock s = NoConn \<and> err s \<noteq> None else sock s = Closed)))"

text \<open>The channel, the returns and the closes, counted.\<close>

definition inv_chan :: "state \<Rightarrow> bool" where
  "inv_chan s =
     (count is_send (trace s) = (if bpc s = B_Done then 1 else 0) \<and>
      count is_recv (trace s) + length (doneChan s) = count is_send (trace s) \<and>
      count is_return (trace s) = (if spc s = S_Done then 1 else 0) \<and>
      count is_close (trace s) = (if sock s = Closed then 1 else 0) \<and>
      ((list_ex is_recv (trace s) \<or> EvCtxDone \<in> set (trace s)) \<longrightarrow>
         spc s = S_Return \<or> spc s = S_Done) \<and>
      (EvCtxDone \<in> set (trace s) \<longrightarrow> \<not> list_ex is_recv (trace s)) \<and>
      (EvDial None \<in> set (trace s)) = (sock s \<noteq> NoConn))"

text \<open>The order of the background goroutine's operations.\<close>

definition inv_bg :: "state \<Rightarrow> bool" where
  "inv_bg s =
     (preceded is_copy_ok is_deadline (trace s) \<and>
      preceded is_deadline_ok is_read (trace s) \<and>
      preceded is_copy_ok is_read (trace s) \<and>
      never_after is_copy is_write (trace s) \<and>
      never_after is_deadline is_write (trace s) \<and>
      (case bpc s of
         B_Idle \<Rightarrow> \<not> list_ex is_bg (trace s)
       | B_Copy \<Rightarrow> \<not> list_ex is_bg (trace s)
       | B_Deadline \<Rightarrow>
           list_ex is_copy_ok (trace s) \<and> list_ex is_copy (trace s) \<and>
           \<not> list_ex is_deadline (trace s) \<and> \<not> list_ex is_read (trace s)
       | B_Read \<Rightarrow>
           list_ex is_copy_ok (trace s) \<and> list_ex is_copy (trace s) \<and>
           list_ex is_deadline_ok (trace s) \<and> list_ex is_deadline (trace s) \<and>
           \<not> list_ex is_read (trace s)
       | B_Send v \<Rightarrow>
           list_ex is_copy (trace s) \<and>
           (list_ex is_copy_fail (trace s) \<or> list_ex is_deadline (trace s)) \<and>
           (list_ex is_deadline_ok (trace s) \<longrightarrow> list_ex is_read (trace s))
       | B_Done \<Rightarrow>
           list_ex is_copy (trace s) \<and>
           (list_ex is_copy_fail (trace s) \<or> list_ex is_deadline (trace s)) \<and>
           (list_ex is_deadline_ok (trace s) \<longrightarrow> list_ex is_read (trace s))))"

text \<open>After a failed copy.\<close>

definition inv_fail :: "state \<Rightarrow> bool" where
  "inv_fail s =
     (\<forall>n e. EvCopy n (Some e) \<in> set (trace s) \<longrightarrow>
        \<not> list_ex is_deadline (trace s) \<and> \<not> list_ex is_read (trace s) \<and>
        (bpc s = B_Send (Some e) \<or> bpc s = B_Done \<and> EvSend (Some e) \<in> set (trace s)) \<and>
        (\<forall>v. EvSend v \<in> set (trace s) \<longrightarrow> v = Some e))"

text \<open>The deadline, the buffer and the trace log.\<close>

definition inv_data :: "world \<Rightarrow> state \<Rightarrow> bool" where
  "inv_data w s =
     ((\<forall>d r. EvSetReadDeadline d r \<in> set (trace s) \<longrightarrow> d = time_Now w + updTimeout) \<and>
      read_deadline s =
        (if list_ex is_deadline_ok (trace s) then Some (time_Now w + updTimeout) else None) \<and>
      buffer s =
        (if \<not> list_ex is_deadline (trace s) then []
         else if EvReadFrom None \<in> set (trace s) then filled w
         else replicate udpBufferSize 0) \<and>
      filter is_received (tlog s) =
        (if EvReadFrom None \<in> set (trace s) then received w else []) \<and>
      (EvReadFrom None \<in> set (trace s) \<longrightarrow> \<not> isl (arriving w)) \<and>
      (\<forall>e. EvReadFrom (Some e) \<in> set (trace s) \<longrightarrow> arriving w = Inl e \<or> e = ErrNetClosing) \<and>
      (bpc s = B_Send None \<or> EvSend None \<in> set (trace s) \<longrightarrow>
         EvReadFrom None \<in> set (trace s)) \<and>
      (EvReadFrom None \<in> set (trace s) \<longrightarrow>
         bpc s = B_Send None \<or> bpc s = B_Done \<and> EvSend None \<in> set (trace s)))"

text \<open>The value the supervising goroutine holds after its \<open>select\<close>.\<close>

definition inv_out :: "world \<Rightarrow> state \<Rightarrow> bool" where
  "inv_out w s =
     ((spc s = S_Return \<or> spc s = S_Done \<and> sock s = Closed \<longrightarrow>
         EvCtxDone \<in> set (trace s) \<and> err s = Some (ctx_Err w) \<or>
         EvRecv (err s) \<in> set (trace s)) \<and>
      (\<forall>v. v \<in> set (doneChan s) \<or> EvRecv v \<in> set (trace s) \<longrightarrow>
         EvSend v \<in> set (trace s)) \<and>
      (EvCtxDone \<in> set (trace s)) = (Cancelled \<in> set (tlog s)) \<and>
      (spc s = S_Done \<longrightarrow> EvReturn (err s) \<in> set (trace s)))"

text \<open>A successful copy has written the whole payload.\<close>

definition inv_copy :: "world \<Rightarrow> state \<Rightarrow> bool" where
  "inv_copy w s =
     (\<forall>n. EvCopy n None \<in> set (trace s) \<longrightarrow>
        n = length (payload (reader w)) \<and> written (trace s) = payload (reader w))"

text \<open>With an empty payload the copy writes nothing and does not fail.\<close>

definition inv_empty :: "state \<Rightarrow> bool" where
  "inv_empty s =
     (\<not> list_ex is_write (trace s) \<and>
      (\<forall>n r. EvCopy n r \<in> set (trace s) \<longrightarrow> n = 0 \<and> r = None))"

text \<open>Every error the call holds is one of the transport or one of the reader.\<close>

definition inv_err :: "world \<Rightarrow> state \<Rightarrow> bool" where
  "inv_err w s =
     ((\<forall>e. err s = Some e \<or> bpc s = B_Send (Some e) \<or> Some e \<in> set (doneChan s) \<longrightarrow>
         err_ok w e) \<and>
      (\<forall>a. raddr s = Some a \<longrightarrow> ResolveUDPAddr w (address w) = Inr a))"

definition inv :: "world \<Rightarrow> state \<Rightarrow> bool" where
  "inv w s = (inv_ctl s \<and> inv_chan s \<and> inv_bg s \<and> inv_fail s \<and> inv_data w s \<and> inv_out w s \<and>
     inv_copy w s)"

text \<open>Once the \<open>select\<close> has taken the case \<open>ctx.Done()\<close>.\<close>

definition cancelled :: "world \<Rightarrow> state \<Rightarrow> bool" where
  "cancelled w s =
     (\<not> list_ex is_recv (trace s) \<and> err s = Some (ctx_Err w) \<and>
      (spc s = S_Return \<and> ret s = None \<or> spc s = S_Done \<and> ret s = Some (Some (ctx_Err w))))"

text \<open>
  What the background goroutine sends when the socket stays open: the error of
  the copy, else that of setting the deadline, else that of the read.
\<close>

definition copy_outcome :: "world \<Rightarrow> error option" where
  "copy_outcome w = fst (snd (io_Copy (conn_Write w) (reader w)))"

definition read_outcome :: "world \<Rightarrow> error option" where
  "read_outcome w = (case arriving w of Inl e \<Rightarrow> Some e | Inr r \<Rightarrow> None)"

definition bg_outcome :: "world \<Rightarrow> error option" where
  "bg_outcome w =
     (case copy_outcome w of
        Some e \<Rightarrow> Some e
      | None \<Rightarrow>
          (case conn_SetReadDeadline w (time_Now w + updTimeout) of
             Some e \<Rightarrow> Some e
           | None \<Rightarrow> read_outcome w))"

text \<open>A call that resolves, dials and is never cancelled.\<close>

definition inv_nc :: "world \<Rightarrow> UDPAddr \<Rightarrow> state \<Rightarrow> bool" where
  "inv_nc w a s =
     (\<not> ctx_done s \<and> (spc s = S_Dial \<longrightarrow> raddr s = Some a) \<and>
      (case bpc s of
         B_Idle \<Rightarrow> spc s \<noteq> S_Done
       | B_Copy \<Rightarrow> spc s = S_Select
       | B_Deadline \<Rightarrow> spc s = S_Select \<and> copy_outcome w = None
       | B_Read \<Rightarrow>
           spc s = S_Select \<and> copy_outcome w = None \<and>
           conn_SetReadDeadline w (time_Now w + updTimeout) = None
       | B_Send v \<Rightarrow> spc s = S_Select \<and> v = bg_outcome w
       | B_Done \<Rightarrow>
           spc s = S_Select \<and> doneChan s = [bg_outcome w] \<or>
           (spc s = S_Return \<or> spc s = S_Done) \<and> err s = bg_outcome w) \<and>
      (\<forall>n r. EvCopy n r \<in> set (trace s) \<longrightarrow> r = copy_outcome w) \<and>
      (\<forall>d r. EvSetReadDeadline d r \<in> set (trace s) \<longrightarrow>
         r = conn_SetReadDeadline w (time_Now w + updTimeout)) \<and>
      (\<forall>r. EvReadFrom r \<in> set (trace s) \<longrightarrow> r = read_outcome w))"

text \<open>How far each goroutine has come.\<close>

fun sup_rank :: "sup_pc \<Rightarrow> nat" where
  "sup_rank S_Resolve = 0"
| "sup_rank S_Dial = 1"
| "sup_rank S_Go = 2"
| "sup_rank S_Select = 3"
| "sup_rank S_Return = 4"
| "sup_rank S_Done = 5"

fun bg_rank :: "bg_pc \<Rightarrow> nat" where
  "bg_rank B_Idle = 0"
| "bg_rank B_Copy = 1"
| "bg_rank B_Deadline = 2"
| "bg_rank B_Read = 3"
| "bg_rank (B_Send v) = 4"
| "bg_rank B_Done = 5"

text \<open>A schedule that lets both goroutines run to their end.\<close>

definition drain :: "tick list" where
  "drain = [Sup True, Sup True, Sup True, Bg, Bg, Bg, Bg, Sup True, Sup True]"

subsection \<open>Example calls\<close>

definition peer :: UDPAddr where
  "peer = UDPAddr ''127.0.0.1'' 9999"

text \<open>A peer that answers the four bytes "ping" with the four bytes "pong".\<close>

definition w_echo :: world where
  "w_echo = \<lparr>address = ''127.0.0.1:9999'', reader = [([0x70, 0x69, 0x6E, 0x67], None)],
     ctx_Err = context_Canceled, ResolveUDPAddr = (\<lambda>a. Inr peer), DialUDP = (\<lambda>a. None),
     conn_Write = (\<lambda>b. (length b, None)), time_Now = 1600000000000000000,
     conn_SetReadDeadline = (\<lambda>t. None), arriving = Inr ([0x70, 0x6F, 0x6E, 0x67], peer)\<rparr>"

text \<open>The same call with a reply of seven bytes, of 2000 bytes, and with no payload.\<close>

definition w_seven :: world where
  "w_seven = w_echo\<lparr>arriving := Inr ([1, 2, 3, 4, 5, 6, 7], peer)\<rparr>"

definition w_big :: world where
  "w_big = w_echo\<lparr>arriving := Inr (replicate 2000 0xFF, peer)\<rparr>"

definition w_empty :: world where
  "w_empty = w_echo\<lparr>reader := []\<rparr>"

text \<open>Calls whose resolution, dial or write fails.\<close>

definition w_unresolved :: world where
  "w_unresolved = w_echo\<lparr>address := ''nohost'',
     ResolveUDPAddr := (\<lambda>a. Inl (NetError ''address nohost: missing port in address''))\<rparr>"

definition w_undialed :: world where
  "w_undialed = w_echo\<lparr>DialUDP := (\<lambda>a. Some (NetError ''dial udp: network is unreachable''))\<rparr>"

definition w_unwritten :: world where
  "w_unwritten = w_echo\<lparr>conn_Write := (\<lambda>b. (0, Some (NetError ''write udp: connection refused'')))\<rparr>"

text \<open>Calls with no payload whose deadline cannot be set, and whose reader fails.\<close>

definition w_undeadlined :: world where
  "w_undeadlined = w_empty\<lparr>conn_SetReadDeadline :=
     (\<lambda>t. Some (NetError ''set udp: invalid argument''))\<rparr>"

definition w_reader_fails :: world where
  "w_reader_fails = w_echo\<lparr>reader := [([], Some (errors_New ''not implemented''))]\<rparr>"

text \<open>The context is cancelled while the supervising goroutine waits.\<close>

definition cancel_early :: "tick list" where
  "cancel_early = [Sup True, Sup True, Sup True, Cancel, Sup True, Sup True]"

section \<open>Invariants\<close>

subsection \<open>Traces\<close>

lemma count_simps [simp]:
  "count P [] = 0"
  "count P (xs @ ys) = count P xs + count P ys"
  "count P (x # xs) = (if P x then 1 else 0) + count P xs"
  by (simp_all add: count_def)

lemma count_pos: "list_ex P tr = (0 < count P tr)"
  by (induction tr) auto

lemma count_map_EvWrite [simp]:
  "count is_send (map EvWrite ws) = 0"
  "count is_recv (map EvWrite ws) = 0"
  "count is_return (map EvWrite ws) = 0"
  "count is_close (map EvWrite ws) = 0"
  by (induction ws) simp_all

lemma list_ex_map_EvWrite [simp]:
  "\<not> list_ex is_recv (map EvWrite ws)"
  "\<not> list_ex is_copy (map EvWrite ws)"
  "\<not> list_ex is_copy_ok (map EvWrite ws)"
  "\<not> list_ex is_copy_fail (map EvWrite ws)"
  "\<not> list_ex is_deadline (map EvWrite ws)"
  "\<not> list_ex is_deadline_ok (map EvWrite ws)"
  "\<not> list_ex is_read (map EvWrite ws)"
  "\<not> list_ex is_send (map EvWrite ws)"
  by (induction ws) simp_all

lemma written_append [simp]: "written (xs @ ys) = written xs @ written ys"
  by (induction xs rule: written.induct) simp_all

lemma written_map_EvWrite [simp]: "written (map EvWrite ws) = concat ws"
  by (induction ws) simp_all

lemma written_none: "\<not> list_ex is_write tr \<Longrightarrow> written tr = []"
  by (induction tr rule: written.induct) simp_all

lemma preceded_append:
  "preceded P Q (xs @ ys) = (preceded P Q xs \<and> (list_ex P xs \<or> preceded P Q ys))"
  by (induction xs) auto

lemma never_after_append:
  "never_after P Q (xs @ ys) =
     (never_after P Q xs \<and> (if list_ex P xs then \<not> list_ex Q ys else never_after P Q ys))"
  by (induction xs) auto

lemma preceded_none: "\<not> list_ex Q xs \<Longrightarrow> preceded P Q xs"
  by (induction xs) auto

lemma never_after_none: "\<not> list_ex P xs \<Longrightarrow> never_after P Q xs"
  by (induction xs) auto

lemma is_bg_kinds:
  "is_write e \<Longrightarrow> is_bg e" "is_copy e \<Longrightarrow> is_bg e" "is_copy_ok e \<Longrightarrow> is_bg e"
  "is_copy_fail e \<Longrightarrow> is_bg e" "is_deadline e \<Longrightarrow> is_bg e" "is_deadline_ok e \<Longrightarrow> is_bg e"
  "is_read e \<Longrightarrow> is_bg e" "is_send e \<Longrightarrow> is_bg e"
  by (auto elim: is_write.elims is_copy.elims is_copy_ok.elims is_copy_fail.elims
        is_deadline.elims is_deadline_ok.elims is_read.elims is_send.elims)

lemma list_ex_bg_imp:
  assumes "\<not> list_ex is_bg tr"
  shows "\<not> list_ex is_write tr" "\<not> list_ex is_copy tr" "\<not> list_ex is_copy_ok tr"
    "\<not> list_ex is_copy_fail tr" "\<not> list_ex is_deadline tr" "\<not> list_ex is_deadline_ok tr"
    "\<not> list_ex is_read tr" "\<not> list_ex is_send tr"
  using assms is_bg_kinds by (auto simp: list_ex_iff)

lemma not_bg_set:
  assumes "\<not> list_ex is_bg tr"
  shows "EvCopy n r \<notin> set tr" "EvSend v \<notin> set tr" "EvReadFrom r \<notin> set tr"
    "EvSetReadDeadline d r \<notin> set tr" "EvWrite b \<notin> set tr"
  using assms by (auto simp: list_ex_iff)

lemma not_kind_set:
  "\<not> list_ex is_read tr \<Longrightarrow> EvReadFrom r \<notin> set tr"
  "\<not> list_ex is_deadline tr \<Longrightarrow> EvSetReadDeadline d r \<notin> set tr"
  "\<not> list_ex is_send tr \<Longrightarrow> EvSend v \<notin> set tr"
  "\<not> list_ex is_recv tr \<Longrightarrow> EvRecv v \<notin> set tr"
  "\<not> list_ex is_copy tr \<Longrightarrow> EvCopy n r \<notin> set tr"
  by (auto simp: list_ex_iff)

lemma kind_imp:
  "is_deadline_ok e \<Longrightarrow> is_deadline e"
  "is_copy_ok e \<Longrightarrow> is_copy e"
  "is_copy_fail e \<Longrightarrow> is_copy e"
proof -
  show "is_deadline_ok e \<Longrightarrow> is_deadline e"
    by (cases e rule: is_deadline_ok.cases) simp_all
  show "is_copy_ok e \<Longrightarrow> is_copy e"
    by (cases e rule: is_copy_ok.cases) simp_all
  show "is_copy_fail e \<Longrightarrow> is_copy e"
    by (cases e rule: is_copy_fail.cases) simp_all
qed

lemma sub_kinds:
  "list_ex is_deadline_ok tr \<Longrightarrow> list_ex is_deadline tr"
  "list_ex is_copy_ok tr \<Longrightarrow> list_ex is_copy tr"
  "list_ex is_copy_fail tr \<Longrightarrow> list_ex is_copy tr"
  unfolding list_ex_iff using kind_imp by blast+

lemma copy_fail_set: "list_ex is_copy_fail tr = (\<exists>n e. EvCopy n (Some e) \<in> set tr)"
proof
  assume "list_ex is_copy_fail tr"
  then obtain x where "x \<in> set tr" "is_copy_fail x" by (auto simp: list_ex_iff)
  then show "\<exists>n e. EvCopy n (Some e) \<in> set tr"
    by (cases x rule: is_copy_fail.cases) auto
next
  assume "\<exists>n e. EvCopy n (Some e) \<in> set tr"
  then obtain n e where "EvCopy n (Some e) \<in> set tr" by blast
  moreover have "is_copy_fail (EvCopy n (Some e))" by simp
  ultimately show "list_ex is_copy_fail tr" unfolding list_ex_iff by blast
qed

subsection \<open>Schedules\<close>

lemmas sup_defs = sup_step_def sup_resolve_def sup_dial_def sup_go_def sup_select_def sup_return_def
lemmas bg_defs = bg_step_def bg_copy_def bg_deadline_def bg_read_def bg_send_def

lemma run_Nil [simp]: "run w s [] = s"
  by (simp add: run_def)

lemma run_Cons [simp]: "run w s (t # sched) = run w (step w s t) sched"
  by (simp add: run_def)

lemma run_append: "run w s (xs @ ys) = run w (run w s xs) ys"
  by (simp add: run_def)

lemma run_invariant:
  assumes "P s" and "\<And>s t. P s \<Longrightarrow> P (step w s t)"
  shows "P (run w s sched)"
  using assms(1) by (induction sched arbitrary: s) (simp_all add: assms(2))

subsection \<open>Control\<close>

lemma inv_ctl_init: "inv_ctl init"
  by (simp add: inv_ctl_def init_def)

lemma inv_ctl_sup: "inv_ctl s \<Longrightarrow> inv_ctl (sup_step w b s)"
  by (auto simp: inv_ctl_def sup_defs
        split: sup_pc.splits sum.splits option.splits list.splits if_splits)

lemma inv_ctl_bg: "inv_ctl s \<Longrightarrow> inv_ctl (bg_step w s)"
  by (auto simp: inv_ctl_def bg_defs Let_def
        split: sup_pc.splits bg_pc.splits prod.splits option.splits if_splits)

lemma inv_ctl_cancel: "inv_ctl s \<Longrightarrow> inv_ctl (s\<lparr>ctx_done := True\<rparr>)"
  by (auto simp: inv_ctl_def split: sup_pc.splits)

subsection \<open>Channel\<close>

lemma inv_chan_init: "inv_chan init"
  by (simp add: inv_chan_def init_def)

lemma inv_chan_sup: "inv_ctl s \<Longrightarrow> inv_chan s \<Longrightarrow> inv_chan (sup_step w b s)"
  by (cases "spc s")
     (auto simp: inv_ctl_def inv_chan_def sup_defs
           split: sum.splits option.splits list.splits if_splits)

lemma inv_chan_bg: "inv_ctl s \<Longrightarrow> inv_chan s \<Longrightarrow> inv_chan (bg_step w s)"
  by (cases "bpc s"; cases "spc s")
     (auto simp: inv_ctl_def inv_chan_def bg_defs Let_def
           split: prod.splits option.splits if_splits)

lemma inv_chan_cancel: "inv_chan s \<Longrightarrow> inv_chan (s\<lparr>ctx_done := True\<rparr>)"
  by (simp add: inv_chan_def)

subsection \<open>Order of the background operations\<close>

lemma inv_bg_init: "inv_bg init"
  by (simp add: inv_bg_def init_def)

lemma inv_bg_sup: "inv_ctl s \<Longrightarrow> inv_bg s \<Longrightarrow> inv_bg (sup_step w b s)"
  by (cases "spc s")
     (auto simp: inv_ctl_def inv_bg_def sup_defs preceded_append never_after_append
           split: sum.splits option.splits list.splits bg_pc.splits)

lemma inv_bg_copy: "inv_bg s \<Longrightarrow> bpc s = B_Copy \<Longrightarrow> inv_bg (bg_copy w s)"
  by (auto simp: inv_bg_def bg_copy_def preceded_append never_after_append
        preceded_none never_after_none
        dest: list_ex_bg_imp split: prod.splits option.splits)

lemma inv_bg_deadline: "inv_bg s \<Longrightarrow> bpc s = B_Deadline \<Longrightarrow> inv_bg (bg_deadline w s)"
  by (auto simp: inv_bg_def bg_deadline_def Let_def preceded_append never_after_append
        dest: sub_kinds split: option.splits)

lemma inv_bg_read: "inv_bg s \<Longrightarrow> bpc s = B_Read \<Longrightarrow> inv_bg (bg_read w s)"
  by (auto simp: inv_bg_def bg_read_def ReadFrom_def preceded_append never_after_append
        split: sum.splits)

lemma inv_bg_send: "inv_bg s \<Longrightarrow> bpc s = B_Send v \<Longrightarrow> inv_bg (bg_send v s)"
  by (auto simp: inv_bg_def bg_send_def preceded_append never_after_append)

lemma inv_bg_bg: "inv_bg s \<Longrightarrow> inv_bg (bg_step w s)"
  by (cases "bpc s")
     (simp_all add: bg_step_def inv_bg_copy inv_bg_deadline inv_bg_read inv_bg_send)

lemma inv_bg_cancel: "inv_bg s \<Longrightarrow> inv_bg (s\<lparr>ctx_done := True\<rparr>)"
  by (simp add: inv_bg_def split: bg_pc.splits)

subsection \<open>Failed copy\<close>

lemma inv_fail_init: "inv_fail init"
  by (simp add: inv_fail_def init_def)

lemma inv_fail_sup: "inv_ctl s \<Longrightarrow> inv_bg s \<Longrightarrow> inv_fail s \<Longrightarrow> inv_fail (sup_step w b s)"
  by (cases "spc s")
     (auto simp: inv_ctl_def inv_bg_def inv_fail_def sup_defs dest: not_bg_set
           split: sum.splits option.splits list.splits)

lemma inv_fail_bg: "inv_bg s \<Longrightarrow> inv_fail s \<Longrightarrow> inv_fail (bg_step w s)"
  by (cases "bpc s")
     (auto simp: inv_bg_def inv_fail_def bg_defs Let_def ReadFrom_def
           dest: not_bg_set list_ex_bg_imp split: prod.splits option.splits)

lemma inv_fail_cancel: "inv_fail s \<Longrightarrow> inv_fail (s\<lparr>ctx_done := True\<rparr>)"
  by (simp add: inv_fail_def)

subsection \<open>Deadline, buffer and log\<close>

lemma inv_data_init: "inv_data w init"
  by (simp add: inv_data_def init_def)

lemma inv_data_sup: "inv_ctl s \<Longrightarrow> inv_data w s \<Longrightarrow> inv_data w (sup_step w b s)"
  by (cases "spc s")
     (auto simp: inv_ctl_def inv_data_def sup_defs split: sum.splits option.splits list.splits)

lemma inv_data_copy: "inv_bg s \<Longrightarrow> inv_data w s \<Longrightarrow> bpc s = B_Copy \<Longrightarrow> inv_data w (bg_copy w s)"
  by (auto simp: inv_bg_def inv_data_def bg_copy_def
           dest: not_bg_set list_ex_bg_imp split: prod.splits option.splits)

lemma inv_data_deadline:
  "inv_bg s \<Longrightarrow> inv_data w s \<Longrightarrow> bpc s = B_Deadline \<Longrightarrow> inv_data w (bg_deadline w s)"
  by (auto simp: inv_bg_def inv_data_def bg_deadline_def Let_def
           dest: not_kind_set split: option.splits)

lemma inv_data_read:
  "inv_bg s \<Longrightarrow> inv_data w s \<Longrightarrow> bpc s = B_Read \<Longrightarrow> inv_data w (bg_read w s)"
  by (auto simp: inv_bg_def inv_data_def bg_read_def ReadFrom_def received_def filled_def
           ErrNetClosing_def dest: not_kind_set split: sum.splits)

lemma inv_data_send:
  "inv_data w s \<Longrightarrow> bpc s = B_Send v \<Longrightarrow> inv_data w (bg_send v s)"
  by (auto simp: inv_data_def bg_send_def)

lemma inv_data_bg: "inv_bg s \<Longrightarrow> inv_data w s \<Longrightarrow> inv_data w (bg_step w s)"
  by (cases "bpc s")
     (simp_all add: bg_step_def inv_data_copy inv_data_deadline inv_data_read inv_data_send)

lemma inv_data_cancel: "inv_data w s \<Longrightarrow> inv_data w (s\<lparr>ctx_done := True\<rparr>)"
  by (simp add: inv_data_def)

subsection \<open>Outcome\<close>

lemma inv_out_init: "inv_out w init"
  by (simp add: inv_out_def init_def)

lemma inv_out_sup: "inv_ctl s \<Longrightarrow> inv_out w s \<Longrightarrow> inv_out w (sup_step w b s)"
  by (cases "spc s")
     (auto simp: inv_ctl_def inv_out_def sup_defs split: sum.splits option.splits list.splits)

lemma inv_out_bg: "inv_out w s \<Longrightarrow> inv_out w (bg_step w' s)"
  by (cases "bpc s")
     (auto simp: inv_out_def bg_defs Let_def ReadFrom_def
           split: prod.splits option.splits sum.splits)

lemma inv_out_cancel: "inv_out w s \<Longrightarrow> inv_out w (s\<lparr>ctx_done := True\<rparr>)"
  by (auto simp: inv_out_def)

subsection \<open>The copy\<close>

lemma io_Copy_ok:
  "io_Copy wr rd = (n, None, ws) \<Longrightarrow> concat ws = payload rd \<and> n = length (payload rd)"
proof (induction rd arbitrary: n ws)
  case Nil
  then show ?case by simp
next
  case (Cons x rd)
  obtain buf er where x: "x = (buf, er)" by (cases x)
  obtain nw ew where wr: "checked_Write wr buf = (nw, ew)" by (cases "checked_Write wr buf")
  obtain n' e' ws' where r: "io_Copy wr rd = (n', e', ws')" by (cases "io_Copy wr rd")
  show ?case
  proof (cases er)
    case None
    show ?thesis
    proof (cases "0 < length buf")
      case True
      with Cons.prems x wr r None have "ew = None" "length buf = nw" "e' = None"
        "n = nw + n'" "ws = buf # ws'"
        by (auto split: option.splits if_splits)
      with Cons.IH r x None show ?thesis by simp
    next
      case False
      with Cons.prems x None have "io_Copy wr rd = (n, None, ws)" by simp
      with Cons.IH x None False show ?thesis by simp
    qed
  next
    case (Some e)
    show ?thesis
    proof (cases "0 < length buf")
      case True
      with Cons.prems x wr Some have "length buf = nw" "n = nw" "ws = [buf]"
        by (auto split: option.splits if_splits)
      with x Some show ?thesis by simp
    next
      case False
      with Cons.prems x Some have "n = 0" "ws = []"
        by (auto split: if_splits)
      with x Some False show ?thesis by simp
    qed
  qed
qed

lemma io_Copy_empty: "payload_empty rd \<Longrightarrow> io_Copy wr rd = (0, None, [])"
  by (induction rd) (auto simp: payload_empty_def)

lemma checked_Write_error:
  "checked_Write wr b = (nw, Some e) \<Longrightarrow> e = io_errInvalidWrite \<or> (\<exists>n. wr b = (n, Some e))"
  by (cases "wr b") (auto simp: checked_Write_def split: if_splits option.splits)

lemma io_Copy_error:
  assumes "io_Copy wr rd = (n, Some e, ws)"
  shows "e = io_ErrShortWrite \<or> e = io_errInvalidWrite \<or>
         (\<exists>b er nw. (b, er) \<in> set rd \<and> wr b = (nw, Some e)) \<or>
         (\<exists>b. (b, Some e) \<in> set rd)"
  using assms
proof (induction rd arbitrary: n ws)
  case Nil
  then show ?case by simp
next
  case (Cons x rd)
  obtain buf er where x: "x = (buf, er)" by (cases x)
  show ?case
  proof (cases "0 < length buf")
    case False
    then show ?thesis
      using Cons x by (cases er) (auto split: if_splits)
  next
    case True
    obtain nw ew where wr: "checked_Write wr buf = (nw, ew)" by (cases "checked_Write wr buf")
    show ?thesis
    proof (cases ew)
      case (Some a)
      with Cons.prems x True wr have "a = e" by simp
      with checked_Write_error[of wr buf nw e] wr Some x show ?thesis by auto
    next
      case None
      show ?thesis
      proof (cases "length buf = nw")
        case False
        then show ?thesis using Cons.prems x True wr None by auto
      next
        case eq: True
        show ?thesis
        proof (cases er)
          case (Some a)
          then show ?thesis using Cons.prems x True wr None eq by (auto split: if_splits)
        next
          case no: None
          obtain n' e' ws' where r: "io_Copy wr rd = (n', e', ws')"
            by (cases "io_Copy wr rd")
          with Cons.prems x True wr None eq no have "e' = Some e" by simp
          with r Cons.IH have "e = io_ErrShortWrite \<or> e = io_errInvalidWrite \<or>
              (\<exists>b er nw. (b, er) \<in> set rd \<and> wr b = (nw, Some e)) \<or> (\<exists>b. (b, Some e) \<in> set rd)"
            by blast
          then show ?thesis by auto
        qed
      qed
    qed
  qed
qed

lemma inv_copy_init: "inv_copy w init"
  by (simp add: inv_copy_def init_def)

lemma inv_copy_sup: "inv_copy w s \<Longrightarrow> inv_copy w (sup_step w' b s)"
  by (cases "spc s")
     (auto simp: inv_copy_def sup_defs split: sum.splits option.splits list.splits)

lemma inv_copy_copy:
  assumes "inv_bg s" "bpc s = B_Copy"
  shows "inv_copy w (bg_copy w s)"
proof -
  from assms have nb: "\<not> list_ex is_bg (trace s)" by (simp add: inv_bg_def)
  then have w0: "written (trace s) = []" and nc: "\<And>n r. EvCopy n r \<notin> set (trace s)"
    by (auto dest: list_ex_bg_imp not_bg_set simp: written_none)
  obtain n r ws where c: "io_Copy (sock_Write w s) (reader w) = (n, r, ws)"
    by (cases "io_Copy (sock_Write w s) (reader w)")
  show ?thesis
  proof (cases r)
    case None
    with c io_Copy_ok have "concat ws = payload (reader w)" "n = length (payload (reader w))"
      by blast+
    with c None w0 nc show ?thesis by (auto simp: inv_copy_def bg_copy_def)
  next
    case (Some e)
    with c nc show ?thesis by (auto simp: inv_copy_def bg_copy_def)
  qed
qed

lemma inv_copy_bg: "inv_bg s \<Longrightarrow> inv_copy w s \<Longrightarrow> inv_copy w (bg_step w s)"
  by (cases "bpc s")
     (simp_all add: bg_step_def inv_copy_copy,
      auto simp: inv_copy_def bg_deadline_def bg_read_def bg_send_def
        Let_def ReadFrom_def split: option.splits sum.splits)

lemma inv_copy_cancel: "inv_copy w s \<Longrightarrow> inv_copy w (s\<lparr>ctx_done := True\<rparr>)"
  by (simp add: inv_copy_def)

lemma inv_empty_init: "inv_empty init"
  by (simp add: inv_empty_def init_def)

lemma inv_empty_sup: "inv_empty s \<Longrightarrow> inv_empty (sup_step w b s)"
  by (cases "spc s")
     (auto simp: inv_empty_def sup_defs split: sum.splits option.splits list.splits)

lemma inv_empty_bg: "payload_empty (reader w) \<Longrightarrow> inv_empty s \<Longrightarrow> inv_empty (bg_step w s)"
  by (cases "bpc s")
     (auto simp: inv_empty_def bg_defs io_Copy_empty Let_def ReadFrom_def
        split: option.splits sum.splits)

lemma inv_empty_step: "payload_empty (reader w) \<Longrightarrow> inv_empty s \<Longrightarrow> inv_empty (step w s t)"
  by (cases t) (simp_all add: step_def inv_empty_sup inv_empty_bg, simp add: inv_empty_def)

subsection \<open>The invariants together\<close>

lemma inv_init: "inv w init"
  by (simp add: inv_def inv_ctl_init inv_chan_init inv_bg_init inv_fail_init inv_data_init
      inv_out_init inv_copy_init)

lemma inv_step: "inv w s \<Longrightarrow> inv w (step w s t)"
proof (cases t)
  case (Sup b)
  assume "inv w s"
  then show ?thesis
    unfolding inv_def step_def Sup tick.case
    by (simp add: inv_ctl_sup inv_chan_sup inv_bg_sup inv_fail_sup inv_data_sup inv_out_sup
        inv_copy_sup)
next
  case Bg
  assume "inv w s"
  then show ?thesis
    unfolding inv_def step_def Bg tick.case
    by (simp add: inv_ctl_bg inv_chan_bg inv_bg_bg inv_fail_bg inv_data_bg inv_out_bg
        inv_copy_bg)
next
  case Cancel
  assume "inv w s"
  then show ?thesis
    unfolding inv_def step_def Cancel tick.case
    by (simp add: inv_ctl_cancel inv_chan_cancel inv_bg_cancel inv_fail_cancel inv_data_cancel
        inv_out_cancel inv_copy_cancel)
qed

lemma inv_run: "inv w s \<Longrightarrow> inv w (run w s sched)"
  by (rule run_invariant) (simp_all add: inv_step)

lemma inv_client: "inv w (client m w sched)"
  unfolding client_def by (rule inv_run) (rule inv_init)

lemma inv_empty_client: "payload_empty (reader w) \<Longrightarrow> inv_empty (client m w sched)"
  unfolding client_def by (rule run_invariant) (simp_all add: inv_empty_init inv_empty_step)

subsection \<open>Errors\<close>

lemma is_net_transport: "is_net e \<Longrightarrow> transport_error e"
  by (simp add: transport_error_def)

lemma is_net_ok: "is_net e \<Longrightarrow> err_ok w e"
  by (simp add: err_ok_def is_net_transport)

lemma ctx_Err_ok: "lib_ok w \<Longrightarrow> err_ok w (ctx_Err w)"
  by (auto simp: lib_ok_def err_ok_def transport_error_def)

lemma ErrNetClosing_ok: "err_ok w ErrNetClosing"
  by (simp add: err_ok_def transport_error_def ErrNetClosing_def)

lemma inv_err_init: "inv_err w init"
  by (simp add: inv_err_def init_def)

lemma inv_err_resolve: "lib_ok w \<Longrightarrow> inv_err w s \<Longrightarrow> inv_err w (sup_resolve w s)"
  by (auto simp: inv_err_def sup_resolve_def lib_ok_def is_net_ok split: sum.splits)

lemma inv_err_dial: "lib_ok w \<Longrightarrow> inv_err w s \<Longrightarrow> inv_err w (sup_dial w s)"
  by (auto simp: inv_err_def sup_dial_def lib_ok_def is_net_ok split: option.splits)

lemma inv_err_go: "inv_ctl s \<Longrightarrow> spc s = S_Go \<Longrightarrow> inv_err w s \<Longrightarrow> inv_err w (sup_go s)"
  by (auto simp: inv_ctl_def inv_err_def sup_go_def)

lemma inv_err_select: "lib_ok w \<Longrightarrow> inv_err w s \<Longrightarrow> inv_err w (sup_select w b s)"
  by (auto simp: inv_err_def sup_select_def ctx_Err_ok split: list.splits)

lemma inv_err_return: "inv_err w s \<Longrightarrow> inv_err w (sup_return s)"
  by (auto simp: inv_err_def sup_return_def)

lemma inv_err_sup: "lib_ok w \<Longrightarrow> inv_ctl s \<Longrightarrow> inv_err w s \<Longrightarrow> inv_err w (sup_step w b s)"
  by (cases "spc s")
     (simp_all add: sup_step_def inv_err_resolve inv_err_dial inv_err_go inv_err_select
        inv_err_return)

lemma inv_err_copy:
  assumes "lib_ok w" "inv_err w s"
  shows "inv_err w (bg_copy w s)"
proof -
  obtain n r ws where c: "io_Copy (sock_Write w s) (reader w) = (n, r, ws)"
    by (cases "io_Copy (sock_Write w s) (reader w)")
  show ?thesis
  proof (cases r)
    case None
    then show ?thesis using assms(2) c by (auto simp: inv_err_def bg_copy_def)
  next
    case (Some e)
    from io_Copy_error[OF c[unfolded Some]]
    have "err_ok w e"
    proof (elim disjE exE conjE)
      assume "e = io_ErrShortWrite"
      then show ?thesis by (simp add: err_ok_def transport_error_def)
    next
      assume "e = io_errInvalidWrite"
      then show ?thesis by (simp add: err_ok_def transport_error_def)
    next
      fix b er nw
      assume in_rd: "(b, er) \<in> set (reader w)" and wr: "sock_Write w s b = (nw, Some e)"
      show ?thesis
      proof (cases "sock s = Open")
        case True
        with wr have "conn_Write w b = (nw, Some e)" by (simp add: sock_Write_def)
        moreover from assms(1) in_rd
        have "case conn_Write w b of (n, Some e) \<Rightarrow> is_net e | (n, None) \<Rightarrow> True"
          by (auto simp: lib_ok_def list_all_iff)
        ultimately have "is_net e" by simp
        then show ?thesis by (rule is_net_ok)
      next
        case False
        with wr have "e = ErrNetClosing" by (simp add: sock_Write_def)
        then show ?thesis by (simp add: ErrNetClosing_ok)
      qed
    next
      fix b
      assume "(b, Some e) \<in> set (reader w)"
      then have "e \<in> set (reader_errors w)"
        by (force simp: reader_errors_def)
      then show ?thesis by (simp add: err_ok_def)
    qed
    then show ?thesis using assms(2) c Some by (auto simp: inv_err_def bg_copy_def)
  qed
qed

lemma inv_err_deadline: "lib_ok w \<Longrightarrow> inv_err w s \<Longrightarrow> inv_err w (bg_deadline w s)"
  by (auto simp: inv_err_def bg_deadline_def Let_def lib_ok_def is_net_ok ErrNetClosing_ok
        split: option.splits)

lemma inv_err_read: "lib_ok w \<Longrightarrow> inv_err w s \<Longrightarrow> inv_err w (bg_read w s)"
  by (auto simp: inv_err_def bg_read_def ReadFrom_def lib_ok_def is_net_ok ErrNetClosing_ok
        split: sum.splits)

lemma inv_err_send: "inv_err w s \<Longrightarrow> bpc s = B_Send v \<Longrightarrow> inv_err w (bg_send v s)"
  by (auto simp: inv_err_def bg_send_def)

lemma inv_err_bg: "lib_ok w \<Longrightarrow> inv_err w s \<Longrightarrow> inv_err w (bg_step w s)"
  by (cases "bpc s")
     (simp_all add: bg_step_def inv_err_copy inv_err_deadline inv_err_read inv_err_send)

lemma inv_err_step:
  "lib_ok w \<Longrightarrow> inv_ctl s \<and> inv_err w s \<Longrightarrow> inv_ctl (step w s t) \<and> inv_err w (step w s t)"
  by (cases t)
     (simp_all add: step_def inv_ctl_sup inv_ctl_bg inv_ctl_cancel inv_err_sup inv_err_bg,
      simp add: inv_err_def)

lemma inv_err_client: "lib_ok w \<Longrightarrow> inv_err w (client m w sched)"
proof -
  assume ok: "lib_ok w"
  have "inv_ctl (run w init sched) \<and> inv_err w (run w init sched)"
    by (rule run_invariant) (simp_all add: inv_ctl_init inv_err_init inv_err_step ok)
  then show ?thesis by (simp add: client_def)
qed

subsection \<open>After the cancellation\<close>

lemma cancelled_step: "cancelled w s \<Longrightarrow> cancelled w (step w s t)"
  by (cases t; cases "spc s")
     (auto simp: cancelled_def step_def sup_step_def sup_return_def bg_step_def bg_copy_def
        bg_deadline_def bg_read_def bg_send_def Let_def ReadFrom_def
        split: bg_pc.splits prod.splits option.splits sum.splits)

lemma cancelled_run: "cancelled w s \<Longrightarrow> cancelled w (run w s sched)"
  by (rule run_invariant) (simp_all add: cancelled_step)

lemma cancelled_returns:
  "cancelled w s \<Longrightarrow> list_ex is_sup sched \<Longrightarrow> ret (run w s sched) = Some (Some (ctx_Err w))"
proof (induction sched arbitrary: s)
  case Nil
  then show ?case by simp
next
  case (Cons t sched)
  have c': "cancelled w (step w s t)" using Cons.prems(1) by (rule cancelled_step)
  show ?case
  proof (cases "is_sup t")
    case True
    then obtain b where t: "t = Sup b" by (cases t) simp_all
    from Cons.prems(1) have "spc (step w s t) = S_Done"
      by (auto simp: t cancelled_def step_def sup_step_def sup_return_def)
    with c' have d: "cancelled w (step w s t) \<and> spc (step w s t) = S_Done" by simp
    have "cancelled w (run w (step w s t) sched) \<and> spc (run w (step w s t) sched) = S_Done"
      by (rule run_invariant[where P = "\<lambda>s. cancelled w s \<and> spc s = S_Done", OF d])
         (auto simp: cancelled_step, case_tac t, auto simp: step_def sup_step_def bg_step_def
          bg_copy_def bg_deadline_def bg_read_def bg_send_def Let_def ReadFrom_def
          split: bg_pc.splits prod.splits option.splits sum.splits)
    then show ?thesis by (auto simp: cancelled_def)
  next
    case False
    with Cons.prems(2) have "list_ex is_sup sched" by simp
    with Cons.IH[OF c'] show ?thesis by simp
  qed
qed

subsection \<open>Progress\<close>

lemma sup_rank_step:
  "inv_ctl s \<Longrightarrow> min 3 (Suc (sup_rank (spc s))) \<le> sup_rank (spc (sup_step w b s))"
  by (cases "spc s")
     (auto simp: inv_ctl_def sup_defs split: sum.splits option.splits list.splits)

lemma bg_rank_step:
  "inv_chan s \<Longrightarrow> bpc s \<noteq> B_Idle \<Longrightarrow>
     min 5 (Suc (bg_rank (bpc s))) \<le> bg_rank (bpc (bg_step w s))"
  by (cases "bpc s")
     (auto simp: inv_chan_def bg_defs Let_def ReadFrom_def
        split: sum.splits option.splits prod.splits if_splits)

lemma bg_step_spc: "spc (bg_step w s) = spc s"
  by (cases "bpc s")
     (auto simp: bg_defs Let_def ReadFrom_def split: sum.splits option.splits prod.splits)

lemma sup_final_step:
  assumes "inv w s" and "bpc s = B_Done \<or> bpc s = B_Idle" and "3 \<le> sup_rank (spc s)"
  shows "min 5 (Suc (sup_rank (spc s))) \<le> sup_rank (spc (sup_step w b s))"
    and "bpc (sup_step w b s) = bpc s"
proof -
  from assms(1) have ctl: "inv_ctl s" and ch: "inv_chan s" by (simp_all add: inv_def)
  show "min 5 (Suc (sup_rank (spc s))) \<le> sup_rank (spc (sup_step w b s))"
  proof (cases "spc s")
    case S_Select
    with ctl assms(2) have d: "bpc s = B_Done" by (auto simp: inv_ctl_def)
    from ch S_Select have "count is_recv (trace s) = 0"
      by (auto simp: inv_chan_def count_pos)
    with ch d have "doneChan s \<noteq> []" by (auto simp: inv_chan_def)
    with S_Select show ?thesis
      by (auto simp: sup_step_def sup_select_def split: list.splits)
  qed (use assms(3) in \<open>auto simp: sup_step_def sup_return_def\<close>)
  show "bpc (sup_step w b s) = bpc s"
    using assms(3)
    by (cases "spc s") (auto simp: sup_step_def sup_select_def sup_return_def split: list.splits)
qed

lemma drain_returns:
  assumes "inv w s"
  shows "ret (run w s drain) \<noteq> None"
    and "bpc (run w s drain) = B_Done \<or> bpc (run w s drain) = B_Idle"
proof -
  define s1 where "s1 = sup_step w True s"
  define s2 where "s2 = sup_step w True s1"
  define s3 where "s3 = sup_step w True s2"
  define s4 where "s4 = bg_step w s3"
  define s5 where "s5 = bg_step w s4"
  define s6 where "s6 = bg_step w s5"
  define s7 where "s7 = bg_step w s6"
  define s8 where "s8 = sup_step w True s7"
  define s9 where "s9 = sup_step w True s8"
  have r: "run w s drain = s9"
    by (simp add: drain_def step_def s1_def s2_def s3_def s4_def s5_def s6_def s7_def s8_def
        s9_def)
  have st: "\<And>x b. sup_step w b x = step w x (Sup b)" "\<And>x. bg_step w x = step w x Bg"
    by (simp_all add: step_def)
  have i: "inv w s1" "inv w s2" "inv w s3" "inv w s4" "inv w s5" "inv w s6" "inv w s7"
    "inv w s8" "inv w s9"
    unfolding s1_def s2_def s3_def s4_def s5_def s6_def s7_def s8_def s9_def st
    using assms by (intro inv_step; assumption)+
  have c: "\<And>x. inv w x \<Longrightarrow> inv_ctl x" "\<And>x. inv w x \<Longrightarrow> inv_chan x"
    by (simp_all add: inv_def)
  have "min 3 (Suc (sup_rank (spc s))) \<le> sup_rank (spc s1)"
    unfolding s1_def using assms by (intro sup_rank_step c)
  moreover have "min 3 (Suc (sup_rank (spc s1))) \<le> sup_rank (spc s2)"
    unfolding s2_def using i by (intro sup_rank_step c)
  moreover have "min 3 (Suc (sup_rank (spc s2))) \<le> sup_rank (spc s3)"
    unfolding s3_def using i by (intro sup_rank_step c)
  ultimately have k3: "3 \<le> sup_rank (spc s3)" by simp
  have sp: "spc s7 = spc s3"
    by (simp add: s7_def s6_def s5_def s4_def bg_step_spc)
  then have k7: "3 \<le> sup_rank (spc s7)" using k3 by simp
  have b7: "bpc s7 = B_Done \<or> bpc s7 = B_Idle"
  proof (cases "bpc s3 = B_Idle")
    case True
    then show ?thesis by (simp add: s7_def s6_def s5_def s4_def bg_step_def)
  next
    case False
    then have n3: "1 \<le> bg_rank (bpc s3)" by (cases "bpc s3") simp_all
    have g: "\<And>x. inv w x \<Longrightarrow> 1 \<le> bg_rank (bpc x) \<Longrightarrow>
        min 5 (Suc (bg_rank (bpc x))) \<le> bg_rank (bpc (bg_step w x))"
      by (rule bg_rank_step) (auto simp: c)
    from g[OF i(3) n3] have n4: "2 \<le> bg_rank (bpc s4)" using n3 by (simp add: s4_def)
    from g[OF i(4)] n4 have n5: "3 \<le> bg_rank (bpc s5)" by (simp add: s5_def)
    from g[OF i(5)] n5 have n6: "4 \<le> bg_rank (bpc s6)" by (simp add: s6_def)
    from g[OF i(6)] n6 have n7: "5 \<le> bg_rank (bpc s7)" by (simp add: s7_def)
    then show ?thesis by (cases "bpc s7") simp_all
  qed
  from sup_final_step[OF i(7) b7 k7, of True]
  have k8: "4 \<le> sup_rank (spc s8)" and b8: "bpc s8 = B_Done \<or> bpc s8 = B_Idle"
    using k7 b7 by (simp_all add: s8_def)
  then have k8': "3 \<le> sup_rank (spc s8)" by simp
  from sup_final_step(1)[OF i(8) b8 k8', of True] k8
  have "5 \<le> sup_rank (spc s9)" by (simp add: s9_def)
  then have "spc s9 = S_Done" by (cases "spc s9") simp_all
  with c(1)[OF i(9)] show "ret (run w s drain) \<noteq> None"
    by (simp add: r inv_ctl_def)
  from sup_final_step(2)[OF i(8) b8 k8', of True] b8
  show "bpc (run w s drain) = B_Done \<or> bpc (run w s drain) = B_Idle"
    by (simp add: r s9_def)
qed


subsection \<open>Calls that fail before the socket exists\<close>

lemma resolve_fails_run:
  assumes "ResolveUDPAddr w (address w) = Inl e"
  shows "\<exists>c. run w init sched =
           (if list_ex is_sup sched then
              init\<lparr>spc := S_Done, err := Some e, ret := Some (Some e),
                trace := [EvResolve, EvReturn (Some e)], ctx_done := c\<rparr>
            else init\<lparr>ctx_done := c\<rparr>)"
proof (induction sched rule: rev_induct)
  case Nil
  have "run w init [] = init\<lparr>ctx_done := False\<rparr>" by (simp add: init_def)
  then show ?case by auto
next
  case (snoc t sched)
  then obtain c where c: "run w init sched =
      (if list_ex is_sup sched then
         init\<lparr>spc := S_Done, err := Some e, ret := Some (Some e),
           trace := [EvResolve, EvReturn (Some e)], ctx_done := c\<rparr>
       else init\<lparr>ctx_done := c\<rparr>)" by blast
  have r: "run w init (sched @ [t]) = step w (run w init sched) t"
    by (simp add: run_append)
  show ?case
  proof (cases t)
    case (Sup b)
    with c r assms show ?thesis
      by (auto simp: step_def sup_step_def sup_resolve_def init_def)
  next
    case Bg
    with c r show ?thesis
      by (auto simp: step_def bg_step_def init_def)
  next
    case Cancel
    with c r show ?thesis
      by (auto simp: step_def init_def)
  qed
qed

lemma dial_fails_run:
  assumes "ResolveUDPAddr w (address w) = Inr a" and "DialUDP w a = Some e"
  shows "\<exists>c. run w init sched =
           (if 2 \<le> length (filter is_sup sched) then
              init\<lparr>spc := S_Done, raddr := Some a, err := Some e, ret := Some (Some e),
                trace := [EvResolve, EvDial (Some e), EvReturn (Some e)], ctx_done := c\<rparr>
            else if 1 \<le> length (filter is_sup sched) then
              init\<lparr>spc := S_Dial, raddr := Some a, trace := [EvResolve], ctx_done := c\<rparr>
            else init\<lparr>ctx_done := c\<rparr>)"
proof (induction sched rule: rev_induct)
  case Nil
  have "run w init [] = init\<lparr>ctx_done := False\<rparr>" by (simp add: init_def)
  then show ?case by auto
next
  case (snoc t sched)
  then obtain c where c: "run w init sched =
      (if 2 \<le> length (filter is_sup sched) then
         init\<lparr>spc := S_Done, raddr := Some a, err := Some e, ret := Some (Some e),
           trace := [EvResolve, EvDial (Some e), EvReturn (Some e)], ctx_done := c\<rparr>
       else if 1 \<le> length (filter is_sup sched) then
         init\<lparr>spc := S_Dial, raddr := Some a, trace := [EvResolve], ctx_done := c\<rparr>
       else init\<lparr>ctx_done := c\<rparr>)" by blast
  have r: "run w init (sched @ [t]) = step w (run w init sched) t"
    by (simp add: run_append)
  show ?case
  proof (cases t)
    case (Sup b)
    with c r assms show ?thesis
      by (auto simp: step_def sup_step_def sup_resolve_def sup_dial_def init_def)
  next
    case Bg
    with c r show ?thesis
      by (auto simp: step_def bg_step_def init_def)
  next
    case Cancel
    with c r show ?thesis
      by (auto simp: step_def init_def)
  qed
qed

subsection \<open>Calls that are not cancelled\<close>

lemma run_invariant_nc:
  assumes "P s" and "\<And>s t. P s \<Longrightarrow> t \<noteq> Cancel \<Longrightarrow> P (step w s t)" and "Cancel \<notin> set sched"
  shows "P (run w s sched)"
  using assms(1,3)
proof (induction sched arbitrary: s)
  case Nil
  then show ?case by simp
next
  case (Cons t sched)
  from Cons.prems have "t \<noteq> Cancel" "Cancel \<notin> set sched" by auto
  with Cons.prems(1) assms(2) Cons.IH show ?case by simp
qed

lemma sock_Write_open: "sock s = Open \<Longrightarrow> sock_Write w s = conn_Write w"
  by (rule ext) (simp add: sock_Write_def)

lemma inv_nc_init: "inv_nc w a init"
  by (simp add: inv_nc_def init_def)

lemma inv_nc_sup:
  assumes "ResolveUDPAddr w (address w) = Inr a" and "DialUDP w a = None"
    and "inv_ctl s" and "inv_chan s" and "inv_nc w a s"
  shows "inv_nc w a (sup_step w b s)"
  using assms
  by (cases "spc s"; cases "bpc s")
     (auto simp: inv_ctl_def inv_chan_def inv_nc_def sup_defs split: list.splits if_splits)

lemma inv_nc_copy:
  assumes "inv_ctl s" and "inv_nc w a s" and "bpc s = B_Copy"
  shows "inv_nc w a (bg_copy w s)"
proof -
  from assms have "spc s = S_Select" by (simp add: inv_nc_def)
  with assms(1) have "sock s = Open" by (simp add: inv_ctl_def)
  then have sw: "sock_Write w s = conn_Write w" by (rule sock_Write_open)
  obtain n r ws where c: "io_Copy (conn_Write w) (reader w) = (n, r, ws)"
    by (cases "io_Copy (conn_Write w) (reader w)")
  then have r: "copy_outcome w = r" by (simp add: copy_outcome_def)
  show ?thesis
    using assms(2,3) c r
    by (cases r) (auto simp: inv_nc_def bg_copy_def sw bg_outcome_def)
qed

lemma inv_nc_deadline:
  assumes "inv_ctl s" and "inv_nc w a s" and "bpc s = B_Deadline"
  shows "inv_nc w a (bg_deadline w s)"
proof -
  from assms have "spc s = S_Select" by (simp add: inv_nc_def)
  with assms(1) have "sock s = Open" by (simp add: inv_ctl_def)
  with assms(2,3) show ?thesis
    by (auto simp: inv_nc_def bg_deadline_def Let_def bg_outcome_def split: option.splits)
qed

lemma inv_nc_read:
  assumes "inv_ctl s" and "inv_nc w a s" and "bpc s = B_Read"
  shows "inv_nc w a (bg_read w s)"
proof -
  from assms have "spc s = S_Select" by (simp add: inv_nc_def)
  with assms(1) have "sock s = Open" by (simp add: inv_ctl_def)
  with assms(2,3) show ?thesis
    by (auto simp: inv_nc_def bg_read_def ReadFrom_def bg_outcome_def read_outcome_def
        split: sum.splits)
qed

lemma inv_nc_send:
  assumes "inv_chan s" and "inv_nc w a s" and "bpc s = B_Send v"
  shows "inv_nc w a (bg_send v s)"
  using assms by (auto simp: inv_chan_def inv_nc_def bg_send_def)

lemma inv_nc_bg:
  assumes "inv_ctl s" and "inv_chan s" and "inv_nc w a s"
  shows "inv_nc w a (bg_step w s)"
  using assms
  by (cases "bpc s")
     (simp_all add: bg_step_def inv_nc_copy inv_nc_deadline inv_nc_read inv_nc_send)

lemma inv_nc_step:
  assumes "ResolveUDPAddr w (address w) = Inr a" and "DialUDP w a = None"
    and "inv w s \<and> inv_nc w a s" and "t \<noteq> Cancel"
  shows "inv w (step w s t) \<and> inv_nc w a (step w s t)"
proof -
  from assms(3) have c: "inv_ctl s" "inv_chan s" by (simp_all add: inv_def)
  from assms(3) have "inv w (step w s t)" by (simp add: inv_step)
  moreover have "inv_nc w a (step w s t)"
    using assms c by (cases t) (simp_all add: step_def inv_nc_sup inv_nc_bg)
  ultimately show ?thesis by simp
qed

lemma uncancelled_call:
  assumes "ResolveUDPAddr w (address w) = Inr a" and "DialUDP w a = None"
    and "Cancel \<notin> set sched"
  shows "inv_nc w a (client m w sched)"
proof -
  have "inv w (run w init sched) \<and> inv_nc w a (run w init sched)"
    by (rule run_invariant_nc[where P = "\<lambda>s. inv w s \<and> inv_nc w a s"])
       (simp_all add: inv_init inv_nc_init inv_nc_step assms)
  then show ?thesis by (simp add: client_def)
qed

lemma uncancelled_returns:
  assumes "ResolveUDPAddr w (address w) = Inr a" and "DialUDP w a = None"
    and "Cancel \<notin> set sched"
  shows "ret (client m w (sched @ drain)) = Some (bg_outcome w)"
    and "bpc (client m w (sched @ drain)) = B_Done"
proof -
  let ?t = "client m w (sched @ drain)"
  have nc: "Cancel \<notin> set (sched @ drain)" using assms(3) by (simp add: drain_def)
  have n: "inv_nc w a ?t" using assms(1,2) nc by (rule uncancelled_call)
  have i: "inv w (client m w sched)" by (rule inv_client)
  have "ret ?t \<noteq> None"
    using drain_returns(1)[OF i] by (simp add: client_def run_append)
  moreover have "inv_ctl ?t" using inv_client[of w m "sched @ drain"] by (simp add: inv_def)
  ultimately have d: "spc ?t = S_Done" "ret ?t = Some (err ?t)"
    by (cases "spc ?t"; simp add: inv_ctl_def)+
  with n show "bpc ?t = B_Done"
    by (cases "bpc ?t") (simp_all add: inv_nc_def)
  with n d show "ret ?t = Some (bg_outcome w)"
    by (simp add: inv_nc_def)
qed

lemma kind_events:
  "list_ex is_deadline tr \<Longrightarrow> \<exists>d r. EvSetReadDeadline d r \<in> set tr"
  "list_ex is_read tr \<Longrightarrow> \<exists>r. EvReadFrom r \<in> set tr"
proof -
  assume "list_ex is_deadline tr"
  then obtain x where "x \<in> set tr" "is_deadline x" by (auto simp: list_ex_iff)
  then show "\<exists>d r. EvSetReadDeadline d r \<in> set tr"
    by (cases x rule: is_deadline.cases) auto
next
  assume "list_ex is_read tr"
  then obtain x where "x \<in> set tr" "is_read x" by (auto simp: list_ex_iff)
  then show "\<exists>r. EvReadFrom r \<in> set tr"
    by (cases x rule: is_read.cases) auto
qed

lemma deadline_ok_event: "EvSetReadDeadline d None \<in> set tr \<Longrightarrow> list_ex is_deadline_ok tr"
proof -
  assume "EvSetReadDeadline d None \<in> set tr"
  moreover have "is_deadline_ok (EvSetReadDeadline d None)" by simp
  ultimately show ?thesis unfolding list_ex_iff by blast
qed

lemma transport_error_differs:
  "transport_error e \<Longrightarrow> e \<noteq> errors_New text"
  by (cases e)
     (auto simp: transport_error_def errors_New_def context_Canceled_def
        context_DeadlineExceeded_def io_ErrShortWrite_def io_errInvalidWrite_def)

subsection \<open>Example calls, evaluated\<close>

lemmas call_defs = client_def step_def sup_defs bg_defs init_def sock_Write_def ReadFrom_def
  checked_Write_def
  udpBufferSize_def updTimeout_def time_Second_def
lemmas world_defs = w_echo_def w_seven_def w_big_def w_empty_def w_unresolved_def w_undialed_def
  w_unwritten_def w_undeadlined_def w_reader_fails_def peer_def drain_def cancel_early_def

lemma echo_run:
  "client m w_echo drain =
     \<lparr>spc = S_Done, bpc = B_Done, sock = Closed, raddr = Some peer, doneChan = [],
      ctx_done = False, err = None,
      buffer = [0x70, 0x6F, 0x6E, 0x67] @ replicate 1020 0,
      read_deadline = Some 1600000001000000000, ret = Some None,
      tlog = [PacketWritten 4, PacketReceived 4 peer],
      trace = [EvResolve, EvDial None, EvGo, EvWrite [0x70, 0x69, 0x6E, 0x67], EvCopy 4 None,
        EvSetReadDeadline 1600000001000000000 None, EvReadFrom None, EvSend None, EvRecv None,
        EvClose, EvReturn None]\<rparr>"
  by (simp add: call_defs world_defs)

lemma echo_cancel_wait:
  "client m w_echo [Sup True, Sup True, Sup True, Cancel] =
     \<lparr>spc = S_Select, bpc = B_Copy, sock = Open, raddr = Some peer, doneChan = [],
      ctx_done = True, err = None, buffer = [], read_deadline = None, ret = None,
      tlog = [], trace = [EvResolve, EvDial None, EvGo]\<rparr>"
  by (simp add: call_defs world_defs)

lemma echo_cancel_done:
  "client m w_echo (cancel_early @ [Bg, Bg]) =
     \<lparr>spc = S_Done, bpc = B_Done, sock = Closed, raddr = Some peer,
      doneChan = [Some ErrNetClosing], ctx_done = True, err = Some context_Canceled,
      buffer = [], read_deadline = None, ret = Some (Some context_Canceled),
      tlog = [Cancelled],
      trace = [EvResolve, EvDial None, EvGo, EvCtxDone, EvClose, EvReturn (Some context_Canceled),
        EvWrite [0x70, 0x69, 0x6E, 0x67], EvCopy 0 (Some ErrNetClosing),
        EvSend (Some ErrNetClosing)]\<rparr>"
  by (simp add: call_defs world_defs)

lemma unresolved_run:
  "client m w_unresolved [Sup True] =
     \<lparr>spc = S_Done, bpc = B_Idle, sock = NoConn, raddr = None, doneChan = [],
      ctx_done = False, err = Some (NetError ''address nohost: missing port in address''),
      buffer = [], read_deadline = None,
      ret = Some (Some (NetError ''address nohost: missing port in address'')),
      tlog = [],
      trace = [EvResolve, EvReturn (Some (NetError ''address nohost: missing port in address''))]\<rparr>"
  by (simp add: call_defs world_defs)



lemma empty_run:
  "client m w_empty drain =
     \<lparr>spc = S_Done, bpc = B_Done, sock = Closed, raddr = Some peer, doneChan = [],
      ctx_done = False, err = None,
      buffer = [0x70, 0x6F, 0x6E, 0x67] @ replicate 1020 0,
      read_deadline = Some 1600000001000000000, ret = Some None,
      tlog = [PacketWritten 0, PacketReceived 4 peer],
      trace = [EvResolve, EvDial None, EvGo, EvCopy 0 None,
        EvSetReadDeadline 1600000001000000000 None, EvReadFrom None, EvSend None, EvRecv None,
        EvClose, EvReturn None]\<rparr>"
  by (simp add: call_defs world_defs)

lemma empty_cancelled_run:
  "client m w_empty (cancel_early @ drain) =
     \<lparr>spc = S_Done, bpc = B_Done, sock = Closed, raddr = Some peer,
      doneChan = [Some ErrNetClosing], ctx_done = True, err = Some context_Canceled,
      buffer = replicate 1024 0, read_deadline = None, ret = Some (Some context_Canceled),
      tlog = [Cancelled, PacketWritten 0],
      trace = [EvResolve, EvDial None, EvGo, EvCtxDone, EvClose, EvReturn (Some context_Canceled),
        EvCopy 0 None, EvSetReadDeadline 1600000001000000000 (Some ErrNetClosing),
        EvSend (Some ErrNetClosing)]\<rparr>"
  by (simp add: call_defs world_defs Let_def)

lemma undeadlined_run:
  "client m w_undeadlined drain =
     \<lparr>spc = S_Done, bpc = B_Done, sock = Closed, raddr = Some peer, doneChan = [],
      ctx_done = False, err = Some (NetError ''set udp: invalid argument''),
      buffer = replicate 1024 0, read_deadline = None,
      ret = Some (Some (NetError ''set udp: invalid argument'')),
      tlog = [PacketWritten 0],
      trace = [EvResolve, EvDial None, EvGo, EvCopy 0 None,
        EvSetReadDeadline 1600000001000000000 (Some (NetError ''set udp: invalid argument'')),
        EvSend (Some (NetError ''set udp: invalid argument'')),
        EvRecv (Some (NetError ''set udp: invalid argument'')), EvClose,
        EvReturn (Some (NetError ''set udp: invalid argument''))]\<rparr>"
  by (simp add: call_defs world_defs Let_def)

lemma reader_fails_run:
  "client m w_reader_fails drain =
     \<lparr>spc = S_Done, bpc = B_Done, sock = Closed, raddr = Some peer, doneChan = [],
      ctx_done = False, err = Some (errors_New ''not implemented''),
      buffer = [], read_deadline = None, ret = Some (Some (errors_New ''not implemented'')),
      tlog = [],
      trace = [EvResolve, EvDial None, EvGo, EvCopy 0 (Some (errors_New ''not implemented'')),
        EvSend (Some (errors_New ''not implemented'')),
        EvRecv (Some (errors_New ''not implemented'')), EvClose,
        EvReturn (Some (errors_New ''not implemented''))]\<rparr>"
  by (simp add: call_defs world_defs Let_def io_EOF_def errors_New_def)

section \<open>The exchange\<close>

text \<open>
  C1, as amended: for every call of \<open>client\<close> that completes with the success
  outcome, the caller receives the nil error and nothing else, the result type
  of \<open>client\<close> being \<open>error\<close>; the received byte count and the sender address
  are written to the trace log, in one line "packet received", and the value
  came through the completion channel.  As stated, with the byte count and the
  sender as the result of the call, the claim fails: two calls whose replies
  differ return the same result.
\<close>

theorem success_returns_nil_only:
  assumes "ret (client m w sched) = Some None"
  shows "\<exists>p a. arriving w = Inr (p, a) \<and>
           filter is_received (tlog (client m w sched)) =
             [PacketReceived (min (length p) udpBufferSize) a] \<and>
           EvRecv None \<in> set (trace (client m w sched))"
proof -
  let ?s = "client m w sched"
  have i: "inv w ?s" by (rule inv_client)
  then have ctl: "inv_ctl ?s" and out: "inv_out w ?s" and dat: "inv_data w ?s"
    by (simp_all add: inv_def)
  from ctl assms have d: "spc ?s = S_Done" "err ?s = None"
    by (auto simp: inv_ctl_def split: sup_pc.splits)
  with ctl have cl: "sock ?s = Closed"
    by (auto simp: inv_ctl_def split: if_splits)
  with out d have rc: "EvRecv None \<in> set (trace ?s)"
    by (auto simp: inv_out_def)
  with out have "EvSend None \<in> set (trace ?s)" by (auto simp: inv_out_def)
  with dat have rd: "EvReadFrom None \<in> set (trace ?s)" by (auto simp: inv_data_def)
  with dat have "filter is_received (tlog ?s) = received w" "\<not> isl (arriving w)"
    by (auto simp: inv_data_def)
  with rc show ?thesis
    by (cases "arriving w") (auto simp: received_def)
qed

theorem success_returns_nil_only_witness:
  "ret (client (NewKeba ''keba'') w_echo drain) = Some None \<and>
   (\<exists>p a. arriving w_echo = Inr (p, a) \<and>
      filter is_received (tlog (client (NewKeba ''keba'') w_echo drain)) =
        [PacketReceived (min (length p) udpBufferSize) a] \<and>
      EvRecv None \<in> set (trace (client (NewKeba ''keba'') w_echo drain)))"
proof -
  have h: "ret (client (NewKeba ''keba'') w_echo drain) = Some None"
    by (simp add: echo_run)
  from success_returns_nil_only[OF h] h show ?thesis by blast
qed

theorem result_carries_no_reply_counterexample:
  "ret (client (NewKeba ''keba'') w_echo drain) = Some None \<and>
   ret (client (NewKeba ''keba'') w_seven drain) = Some None \<and>
   filter is_received (tlog (client (NewKeba ''keba'') w_echo drain)) = [PacketReceived 4 peer] \<and>
   filter is_received (tlog (client (NewKeba ''keba'') w_seven drain)) = [PacketReceived 7 peer]"
  by (simp add: call_defs world_defs)

text \<open>
  C2, as amended: once the dial has succeeded the socket is closed exactly
  once, when the call returns and not before, on every exit path; before a
  successful dial there is no socket and no background goroutine.  When the
  call has taken its value from the completion channel the background goroutine
  has finished.  As stated the claim fails: when the call returns the
  cancellation error the deferred close runs at that return, while the
  background goroutine may not have started its copy, and the goroutine then
  works on the closed socket.
\<close>

theorem socket_closed_at_return:
  assumes "s = client m w sched"
  shows "(EvDial None \<in> set (trace s) \<and> ret s \<noteq> None \<longrightarrow> sock s = Closed) \<and>
         (ret s = None \<longrightarrow> sock s \<noteq> Closed) \<and>
         count is_close (trace s) = (if sock s = Closed then 1 else 0) \<and>
         (EvDial None \<notin> set (trace s) \<longrightarrow> sock s = NoConn \<and> bpc s = B_Idle) \<and>
         (list_ex is_recv (trace s) \<longrightarrow> bpc s = B_Done)"
proof -
  have i: "inv w s" unfolding assms by (rule inv_client)
  then have ctl: "inv_ctl s" and ch: "inv_chan s"
    by (simp_all add: inv_def)
  from ch have dial: "(EvDial None \<in> set (trace s)) = (sock s \<noteq> NoConn)"
    by (simp add: inv_chan_def)
  have a: "EvDial None \<in> set (trace s) \<and> ret s \<noteq> None \<longrightarrow> sock s = Closed"
    using ctl dial by (cases "spc s") (auto simp: inv_ctl_def split: if_splits)
  have b: "ret s = None \<longrightarrow> sock s \<noteq> Closed"
    using ctl by (cases "spc s") (auto simp: inv_ctl_def)
  have c: "count is_close (trace s) = (if sock s = Closed then 1 else 0)"
    using ch by (simp add: inv_chan_def)
  have d: "EvDial None \<notin> set (trace s) \<longrightarrow> sock s = NoConn \<and> bpc s = B_Idle"
    using ctl dial by (cases "spc s") (auto simp: inv_ctl_def split: if_splits)
  have e: "list_ex is_recv (trace s) \<longrightarrow> bpc s = B_Done"
    using ch by (auto simp: inv_chan_def count_pos split: if_splits)
  from a b c d e show ?thesis by blast
qed

theorem socket_closed_at_return_witness:
  "EvDial None \<in> set (trace (client (NewKeba ''keba'') w_echo drain)) \<and>
   ret (client (NewKeba ''keba'') w_echo drain) \<noteq> None \<and>
   sock (client (NewKeba ''keba'') w_echo drain) = Closed \<and>
   list_ex is_recv (trace (client (NewKeba ''keba'') w_echo drain)) \<and>
   bpc (client (NewKeba ''keba'') w_echo drain) = B_Done \<and>
   count is_close (trace (client (NewKeba ''keba'') w_echo drain)) = 1"
  using socket_closed_at_return[of "client (NewKeba ''keba'') w_echo drain" "NewKeba ''keba''"
      w_echo drain]
  by (simp add: echo_run)

theorem closed_under_background_counterexample:
  "ret (client (NewKeba ''keba'') w_echo cancel_early) = Some (Some context_Canceled) \<and>
   sock (client (NewKeba ''keba'') w_echo cancel_early) = Closed \<and>
   bpc (client (NewKeba ''keba'') w_echo cancel_early) = B_Copy \<and>
   trace (client (NewKeba ''keba'') w_echo (cancel_early @ [Bg])) =
     [EvResolve, EvDial None, EvGo, EvCtxDone, EvClose, EvReturn (Some context_Canceled),
      EvWrite [0x70, 0x69, 0x6E, 0x67], EvCopy 0 (Some ErrNetClosing)]"
  by (simp add: call_defs world_defs)

text \<open>
  C3, as amended: when the \<open>select\<close> of the supervising goroutine finds the
  context done and the completion channel still empty, it takes the case
  \<open>ctx.Done()\<close> at once: the call returns \<open>ctx.Err()\<close> with its next step,
  wherever the background goroutine stands (it need not have armed the read
  deadline, nor even begun), and no later step changes that result.  Whatever
  the background goroutine sends afterwards stays in the channel: nothing is
  ever received from it.  As stated, for every call whose context is done
  before the channel delivers, the claim fails: when the \<open>select\<close> is first
  evaluated with both cases ready, Go takes either, and a call whose context
  was done before it began can return the background goroutine's outcome.
\<close>

theorem cancellation_seen_first:
  assumes "s = client m w sched" and "spc s = S_Select" and "ctx_done s" and "doneChan s = []"
  shows "spc (step w s (Sup pick)) = S_Return \<and>
         bpc (step w s (Sup pick)) = bpc s \<and>
         ret (step w (step w s (Sup pick)) (Sup pick')) = Some (Some (ctx_Err w)) \<and>
         (\<forall>rest. cancelled w (run w (step w s (Sup pick)) rest) \<and>
            length (doneChan (run w (step w s (Sup pick)) rest)) =
              count is_send (trace (run w (step w s (Sup pick)) rest)) \<and>
            (list_ex is_sup rest \<longrightarrow>
               ret (run w (step w s (Sup pick)) rest) = Some (Some (ctx_Err w))))"
proof -
  let ?s' = "step w s (Sup pick)"
  have i: "inv w s" unfolding assms(1) by (rule inv_client)
  then have "inv_chan s" "inv_ctl s" by (simp_all add: inv_def)
  with assms(2) have nr: "\<not> list_ex is_recv (trace s)" "ret s = None"
    by (auto simp: inv_chan_def inv_ctl_def)
  with assms have c: "cancelled w ?s'"
    by (simp add: cancelled_def step_def sup_step_def sup_select_def)
  from assms have a: "spc ?s' = S_Return" "bpc ?s' = bpc s"
    by (simp_all add: step_def sup_step_def sup_select_def)
  have b: "ret (step w ?s' (Sup pick')) = Some (Some (ctx_Err w))"
    using cancelled_returns[OF c, of "[Sup pick']"] by simp
  have d: "cancelled w (run w ?s' rest) \<and>
      length (doneChan (run w ?s' rest)) = count is_send (trace (run w ?s' rest)) \<and>
      (list_ex is_sup rest \<longrightarrow> ret (run w ?s' rest) = Some (Some (ctx_Err w)))" for rest
  proof -
    have c': "cancelled w (run w ?s' rest)" using c by (rule cancelled_run)
    have "inv w (run w ?s' rest)" using i by (intro inv_run inv_step)
    then have "inv_chan (run w ?s' rest)" by (simp add: inv_def)
    moreover from c' have "count is_recv (trace (run w ?s' rest)) = 0"
      by (simp add: cancelled_def count_pos)
    ultimately have "length (doneChan (run w ?s' rest)) = count is_send (trace (run w ?s' rest))"
      by (simp add: inv_chan_def)
    with c' cancelled_returns[OF c] show ?thesis by blast
  qed
  from a b d show ?thesis by blast
qed

theorem cancellation_seen_first_witness:
  "spc (client (NewKeba ''keba'') w_echo [Sup True, Sup True, Sup True, Cancel]) = S_Select \<and>
   ctx_done (client (NewKeba ''keba'') w_echo [Sup True, Sup True, Sup True, Cancel]) \<and>
   doneChan (client (NewKeba ''keba'') w_echo [Sup True, Sup True, Sup True, Cancel]) = [] \<and>
   bpc (step w_echo (client (NewKeba ''keba'') w_echo [Sup True, Sup True, Sup True, Cancel])
          (Sup False)) = B_Copy \<and>
   ret (step w_echo
         (step w_echo (client (NewKeba ''keba'') w_echo [Sup True, Sup True, Sup True, Cancel])
            (Sup False))
         (Sup False)) = Some (Some context_Canceled)"
proof -
  let ?s = "client (NewKeba ''keba'') w_echo [Sup True, Sup True, Sup True, Cancel]"
  have h: "spc ?s = S_Select" "ctx_done ?s" "doneChan ?s = []" and b: "bpc ?s = B_Copy"
    by (simp_all add: echo_cancel_wait)
  have e: "ctx_Err w_echo = context_Canceled" by (simp add: w_echo_def)
  from cancellation_seen_first[OF refl h, of False False] h b e show ?thesis by simp
qed

theorem ready_select_takes_either_counterexample:
  "ctx_done (client (NewKeba ''keba'') w_echo [Cancel]) \<and>
   doneChan (client (NewKeba ''keba'') w_echo [Cancel]) = [] \<and>
   ret (client (NewKeba ''keba'') w_echo
          [Cancel, Sup True, Sup True, Sup True, Bg, Bg, Bg, Bg, Sup False, Sup True]) =
     Some None \<and>
   trace (client (NewKeba ''keba'') w_echo
          [Cancel, Sup True, Sup True, Sup True, Bg, Bg, Bg, Bg, Sup False, Sup True]) =
     [EvResolve, EvDial None, EvGo, EvWrite [0x70, 0x69, 0x6E, 0x67], EvCopy 4 None,
      EvSetReadDeadline 1600000001000000000 None, EvReadFrom None, EvSend None, EvRecv None,
      EvClose, EvReturn None]"
  by (simp add: call_defs world_defs)

text \<open>
  C4, as amended: every call returns at most one outcome, exactly one once it
  has returned, and every schedule continued fairly returns.  The completion
  channel never holds more than one value; it is written at most once: once when
  the background goroutine has finished, never when resolution or dial failed;
  and it is read at most once: once when the call returns the background
  goroutine's outcome, never when it returns the cancellation error.  As stated,
  with the channel written exactly once and read exactly once in every call,
  the claim fails: after a cancellation the value sent stays unread, and after a
  failed resolution nothing is sent.
\<close>

theorem one_outcome_channel_at_most_once:
  assumes "s = client m w sched"
  shows "count is_return (trace s) = (if ret s = None then 0 else 1) \<and>
         (\<forall>r. ret s = Some r \<longrightarrow> EvReturn r \<in> set (trace s)) \<and>
         length (doneChan s) \<le> 1 \<and>
         count is_send (trace s) = (if bpc s = B_Done then 1 else 0) \<and>
         count is_recv (trace s) + length (doneChan s) = count is_send (trace s) \<and>
         (EvCtxDone \<in> set (trace s) \<longrightarrow> count is_recv (trace s) = 0) \<and>
         (ret s \<noteq> None \<and> sock s = Closed \<and> EvCtxDone \<notin> set (trace s) \<longrightarrow>
            count is_recv (trace s) = 1) \<and>
         (sock s = NoConn \<longrightarrow> count is_send (trace s) = 0) \<and>
         ret (client m w (sched @ drain)) \<noteq> None"
proof -
  have i: "inv w s" unfolding assms by (rule inv_client)
  then have ctl: "inv_ctl s" and ch: "inv_chan s" and out: "inv_out w s"
    by (simp_all add: inv_def)
  have a: "count is_return (trace s) = (if ret s = None then 0 else 1)"
    using ctl ch by (cases "spc s") (auto simp: inv_ctl_def inv_chan_def)
  have b: "\<forall>r. ret s = Some r \<longrightarrow> EvReturn r \<in> set (trace s)"
    using ctl out by (cases "spc s") (auto simp: inv_ctl_def inv_out_def)
  have c: "count is_send (trace s) = (if bpc s = B_Done then 1 else 0)"
    "count is_recv (trace s) + length (doneChan s) = count is_send (trace s)"
    using ch by (simp_all add: inv_chan_def)
  then have d: "length (doneChan s) \<le> 1" by (simp split: if_splits)
  have e: "EvCtxDone \<in> set (trace s) \<longrightarrow> count is_recv (trace s) = 0"
    using ch by (auto simp: inv_chan_def count_pos)
  have f: "ret s \<noteq> None \<and> sock s = Closed \<and> EvCtxDone \<notin> set (trace s) \<longrightarrow>
      count is_recv (trace s) = 1"
  proof (intro impI, elim conjE)
    assume r: "ret s \<noteq> None" and cl: "sock s = Closed" and nc: "EvCtxDone \<notin> set (trace s)"
    from ctl r have "spc s = S_Done" by (cases "spc s") (auto simp: inv_ctl_def)
    with out cl nc have "EvRecv (err s) \<in> set (trace s)" by (auto simp: inv_out_def)
    moreover have "is_recv (EvRecv (err s))" by simp
    ultimately have "list_ex is_recv (trace s)" unfolding list_ex_iff by blast
    then have "0 < count is_recv (trace s)" by (simp add: count_pos)
    with c show "count is_recv (trace s) = 1" by (simp split: if_splits)
  qed
  have g: "sock s = NoConn \<longrightarrow> count is_send (trace s) = 0"
    using ctl c by (cases "spc s") (auto simp: inv_ctl_def split: if_splits)
  have h: "ret (client m w (sched @ drain)) \<noteq> None"
    using drain_returns(1)[OF i] by (simp add: assms client_def run_append)
  from a b c d e f g h show ?thesis by blast
qed

theorem one_outcome_channel_at_most_once_witness:
  "ret (client (NewKeba ''keba'') w_echo drain) = Some None \<and>
   EvReturn None \<in> set (trace (client (NewKeba ''keba'') w_echo drain)) \<and>
   sock (client (NewKeba ''keba'') w_echo drain) = Closed \<and>
   EvCtxDone \<notin> set (trace (client (NewKeba ''keba'') w_echo drain)) \<and>
   count is_recv (trace (client (NewKeba ''keba'') w_echo drain)) = 1 \<and>
   count is_send (trace (client (NewKeba ''keba'') w_echo drain)) = 1 \<and>
   count is_return (trace (client (NewKeba ''keba'') w_echo drain)) = 1 \<and>
   EvCtxDone \<in> set (trace (client (NewKeba ''keba'') w_echo (cancel_early @ [Bg, Bg]))) \<and>
   count is_recv (trace (client (NewKeba ''keba'') w_echo (cancel_early @ [Bg, Bg]))) = 0 \<and>
   sock (client (NewKeba ''keba'') w_unresolved [Sup True]) = NoConn \<and>
   count is_send (trace (client (NewKeba ''keba'') w_unresolved [Sup True])) = 0 \<and>
   ret (client (NewKeba ''keba'') w_echo ([] @ drain)) \<noteq> None"
  using one_outcome_channel_at_most_once[OF refl, of "NewKeba ''keba''" w_echo drain]
    one_outcome_channel_at_most_once[OF refl, of "NewKeba ''keba''" w_echo "cancel_early @ [Bg, Bg]"]
    one_outcome_channel_at_most_once[OF refl, of "NewKeba ''keba''" w_unresolved "[Sup True]"]
    one_outcome_channel_at_most_once[OF refl, of "NewKeba ''keba''" w_echo "[]"]
  by (simp add: echo_run echo_cancel_done unresolved_run)

theorem channel_not_read_counterexample:
  "ret (client (NewKeba ''keba'') w_echo (cancel_early @ [Bg, Bg])) =
     Some (Some context_Canceled) \<and>
   count is_send (trace (client (NewKeba ''keba'') w_echo (cancel_early @ [Bg, Bg]))) = 1 \<and>
   count is_recv (trace (client (NewKeba ''keba'') w_echo (cancel_early @ [Bg, Bg]))) = 0 \<and>
   doneChan (client (NewKeba ''keba'') w_echo (cancel_early @ [Bg, Bg])) = [Some ErrNetClosing] \<and>
   ret (client (NewKeba ''keba'') w_unresolved [Sup True]) =
     Some (Some (NetError ''address nohost: missing port in address'')) \<and>
   count is_send (trace (client (NewKeba ''keba'') w_unresolved [Sup True])) = 0"
  by (simp add: echo_cancel_done unresolved_run)



text \<open>
  C6: when the address does not resolve, the call returns the resolution error
  as soon as the supervising goroutine runs, and nothing else happens: no dial,
  no socket, no background goroutine, no write.  When the address resolves and
  the dial fails, the call returns the dial error at its second step and nothing
  further is attempted: no socket is held and no background goroutine is
  started.
\<close>

theorem resolve_or_dial_failure_stops:
  assumes "s = client m w sched"
  shows "(ResolveUDPAddr w (address w) = Inl e \<longrightarrow>
            sock s = NoConn \<and> bpc s = B_Idle \<and> doneChan s = [] \<and>
            (if list_ex is_sup sched
             then ret s = Some (Some e) \<and> trace s = [EvResolve, EvReturn (Some e)]
             else ret s = None \<and> trace s = [])) \<and>
         (ResolveUDPAddr w (address w) = Inr a \<and> DialUDP w a = Some e \<longrightarrow>
            sock s = NoConn \<and> bpc s = B_Idle \<and> doneChan s = [] \<and>
            (if 2 \<le> length (filter is_sup sched)
             then ret s = Some (Some e) \<and>
                  trace s = [EvResolve, EvDial (Some e), EvReturn (Some e)]
             else ret s = None \<and> (trace s = [] \<or> trace s = [EvResolve])))"
proof (rule conjI; rule impI)
  assume f: "ResolveUDPAddr w (address w) = Inl e"
  from resolve_fails_run[OF f, of sched]
  show "sock s = NoConn \<and> bpc s = B_Idle \<and> doneChan s = [] \<and>
      (if list_ex is_sup sched
       then ret s = Some (Some e) \<and> trace s = [EvResolve, EvReturn (Some e)]
       else ret s = None \<and> trace s = [])"
    by (auto simp: assms client_def init_def)
next
  assume "ResolveUDPAddr w (address w) = Inr a \<and> DialUDP w a = Some e"
  then have f: "ResolveUDPAddr w (address w) = Inr a" "DialUDP w a = Some e" by simp_all
  from dial_fails_run[OF f, of sched]
  show "sock s = NoConn \<and> bpc s = B_Idle \<and> doneChan s = [] \<and>
      (if 2 \<le> length (filter is_sup sched)
       then ret s = Some (Some e) \<and> trace s = [EvResolve, EvDial (Some e), EvReturn (Some e)]
       else ret s = None \<and> (trace s = [] \<or> trace s = [EvResolve]))"
    by (auto simp: assms client_def init_def)
qed

theorem resolve_or_dial_failure_stops_witness:
  "ResolveUDPAddr w_unresolved (address w_unresolved) =
     Inl (NetError ''address nohost: missing port in address'') \<and>
   ret (client (NewKeba ''keba'') w_unresolved (Cancel # Bg # drain)) =
     Some (Some (NetError ''address nohost: missing port in address'')) \<and>
   trace (client (NewKeba ''keba'') w_unresolved (Cancel # Bg # drain)) =
     [EvResolve, EvReturn (Some (NetError ''address nohost: missing port in address''))] \<and>
   sock (client (NewKeba ''keba'') w_unresolved (Cancel # Bg # drain)) = NoConn \<and>
   bpc (client (NewKeba ''keba'') w_unresolved (Cancel # Bg # drain)) = B_Idle \<and>
   ResolveUDPAddr w_undialed (address w_undialed) = Inr peer \<and>
   DialUDP w_undialed peer = Some (NetError ''dial udp: network is unreachable'') \<and>
   ret (client (NewKeba ''keba'') w_undialed (Bg # drain)) =
     Some (Some (NetError ''dial udp: network is unreachable'')) \<and>
   trace (client (NewKeba ''keba'') w_undialed (Bg # drain)) =
     [EvResolve, EvDial (Some (NetError ''dial udp: network is unreachable'')),
      EvReturn (Some (NetError ''dial udp: network is unreachable''))] \<and>
   sock (client (NewKeba ''keba'') w_undialed (Bg # drain)) = NoConn \<and>
   bpc (client (NewKeba ''keba'') w_undialed (Bg # drain)) = B_Idle"
proof -
  have a: "ResolveUDPAddr w_unresolved (address w_unresolved) =
      Inl (NetError ''address nohost: missing port in address'')"
    by (simp add: world_defs)
  have b: "ResolveUDPAddr w_undialed (address w_undialed) = Inr peer \<and>
      DialUDP w_undialed peer = Some (NetError ''dial udp: network is unreachable'')"
    by (simp add: world_defs)
  have s: "list_ex is_sup (Cancel # Bg # drain)" "2 \<le> length (filter is_sup (Bg # drain))"
    by (simp_all add: drain_def)
  from resolve_or_dial_failure_stops[OF refl, of w_unresolved
      "NetError ''address nohost: missing port in address''" "NewKeba ''keba''"
      "Cancel # Bg # drain" peer]
    resolve_or_dial_failure_stops[OF refl, of w_undialed
      "NetError ''dial udp: network is unreachable''" "NewKeba ''keba''" "Bg # drain" peer]
    a b s
  show ?thesis by simp
qed



text \<open>
  C8, as amended: with a reader that delivers no byte and ends with \<open>io.EOF\<close>,
  the copy writes nothing and never fails, so the call does not fail on account
  of the empty payload, and the background goroutine goes on to set the read
  deadline.  When the call is not cancelled and resolution, dial and
  \<open>SetReadDeadline\<close> succeed, a schedule continued fairly ends with the
  deadline armed and the receive performed: the buffer, the trace log and the
  result of the call are those of \<open>ReadFrom\<close> on a fresh buffer of
  \<open>udpBufferSize\<close> bytes.  As stated, for every call, the claim fails: after a
  cancellation the goroutine finds the socket closed, and when
  \<open>SetReadDeadline\<close> fails the goroutine sends that error; in both cases no
  deadline is armed and nothing is received.
\<close>

theorem empty_payload_reaches_read:
  assumes "payload_empty (reader w)" and "s = client m w sched"
    and "t = client m w (sched @ drain)"
  shows "\<not> list_ex is_write (trace s) \<and> \<not> list_ex is_copy_fail (trace s) \<and>
         (\<forall>n r. EvCopy n r \<in> set (trace s) \<longrightarrow> n = 0 \<and> r = None) \<and>
         (bpc s = B_Copy \<longrightarrow> bpc (step w s Bg) = B_Deadline) \<and>
         (bpc s = B_Deadline \<longrightarrow>
            (\<exists>r. EvSetReadDeadline (time_Now w + updTimeout) r \<in> set (trace (step w s Bg)))) \<and>
         (sock t \<noteq> NoConn \<longrightarrow>
            bpc t = B_Done \<and> list_ex is_deadline (trace t) \<and>
            (list_ex is_deadline_ok (trace t) \<longrightarrow> list_ex is_read (trace t))) \<and>
         (Cancel \<notin> set sched \<and> ResolveUDPAddr w (address w) = Inr a \<and> DialUDP w a = None \<and>
          conn_SetReadDeadline w (time_Now w + updTimeout) = None \<and>
          ReadFrom (arriving w) (replicate udpBufferSize 0) = (nRead, addr, e, buf) \<longrightarrow>
            read_deadline t = Some (time_Now w + updTimeout) \<and>
            EvReadFrom e \<in> set (trace t) \<and>
            buffer t = buf \<and>
            filter is_received (tlog t) =
              (case addr of Some x \<Rightarrow> [PacketReceived nRead x] | None \<Rightarrow> []) \<and>
            ret t = Some e)"
proof -
  have i: "inv w s" unfolding assms(2) by (rule inv_client)
  have e: "inv_empty s" unfolding assms(2) using assms(1) by (rule inv_empty_client)
  then have a: "\<not> list_ex is_write (trace s)"
    "\<forall>n r. EvCopy n r \<in> set (trace s) \<longrightarrow> n = 0 \<and> r = None"
    by (auto simp: inv_empty_def)
  from a(2) have nf: "\<not> list_ex is_copy_fail (trace s)"
    by (auto simp: copy_fail_set)
  have b: "bpc s = B_Copy \<longrightarrow> bpc (step w s Bg) = B_Deadline"
    using assms(1) by (auto simp: step_def bg_step_def bg_copy_def io_Copy_empty)
  have c: "bpc s = B_Deadline \<longrightarrow>
      (\<exists>r. EvSetReadDeadline (time_Now w + updTimeout) r \<in> set (trace (step w s Bg)))"
    by (auto simp: step_def bg_step_def bg_deadline_def Let_def split: option.splits)
  have tr: "t = run w s drain" by (simp add: assms(2,3) client_def run_append)
  have it: "inv w t" unfolding assms(3) by (rule inv_client)
  then have ctl: "inv_ctl t" and bgt: "inv_bg t" and dat: "inv_data w t"
    by (simp_all add: inv_def)
  have et: "inv_empty t" unfolding assms(3) using assms(1) by (rule inv_empty_client)
  then have nft: "\<not> list_ex is_copy_fail (trace t)"
    by (auto simp: inv_empty_def copy_fail_set)
  have g: "sock t \<noteq> NoConn \<longrightarrow>
      bpc t = B_Done \<and> list_ex is_deadline (trace t) \<and>
      (list_ex is_deadline_ok (trace t) \<longrightarrow> list_ex is_read (trace t))"
  proof
    assume so: "sock t \<noteq> NoConn"
    have r: "ret t \<noteq> None" and bd: "bpc t = B_Done \<or> bpc t = B_Idle"
      using drain_returns[OF i] by (simp_all add: tr)
    from ctl r so have "bpc t \<noteq> B_Idle"
      by (cases "spc t") (auto simp: inv_ctl_def)
    with bd have dn: "bpc t = B_Done" by simp
    with bgt nft show "bpc t = B_Done \<and> list_ex is_deadline (trace t) \<and>
        (list_ex is_deadline_ok (trace t) \<longrightarrow> list_ex is_read (trace t))"
      by (auto simp: inv_bg_def)
  qed
  have h: "read_deadline t = Some (time_Now w + updTimeout) \<and> EvReadFrom e \<in> set (trace t) \<and>
      buffer t = buf \<and>
      filter is_received (tlog t) =
        (case addr of Some x \<Rightarrow> [PacketReceived nRead x] | None \<Rightarrow> []) \<and>
      ret t = Some e"
    if hy: "Cancel \<notin> set sched \<and> ResolveUDPAddr w (address w) = Inr a \<and> DialUDP w a = None \<and>
      conn_SetReadDeadline w (time_Now w + updTimeout) = None \<and>
      ReadFrom (arriving w) (replicate udpBufferSize 0) = (nRead, addr, e, buf)"
  proof -
    from hy have nc: "Cancel \<notin> set (sched @ drain)" by (simp add: drain_def)
    from hy have ra: "ResolveUDPAddr w (address w) = Inr a" "DialUDP w a = None"
      and dl: "conn_SetReadDeadline w (time_Now w + updTimeout) = None"
      and rf: "ReadFrom (arriving w) (replicate udpBufferSize 0) = (nRead, addr, e, buf)"
      by simp_all
    have n: "inv_nc w a t" unfolding assms(3) using ra nc by (rule uncancelled_call)
    from hy have rt: "ret t = Some (bg_outcome w)" and dn: "bpc t = B_Done"
      unfolding assms(3) by (simp_all add: uncancelled_returns)
    have "copy_outcome w = None"
      using assms(1) by (simp add: copy_outcome_def io_Copy_empty)
    with dl have bo: "bg_outcome w = read_outcome w" by (simp add: bg_outcome_def)
    from bgt nft dn have d1: "list_ex is_deadline (trace t)"
      and d2: "list_ex is_deadline_ok (trace t) \<longrightarrow> list_ex is_read (trace t)"
      by (auto simp: inv_bg_def)
    from d1 obtain d r where "EvSetReadDeadline d r \<in> set (trace t)"
      using kind_events(1) by blast
    moreover with n dl have "r = None" by (auto simp: inv_nc_def)
    ultimately have ok: "list_ex is_deadline_ok (trace t)" using deadline_ok_event by blast
    with d2 obtain r' where "EvReadFrom r' \<in> set (trace t)"
      using kind_events(2) by blast
    moreover with n have "r' = read_outcome w" by (auto simp: inv_nc_def)
    ultimately have rd: "EvReadFrom (read_outcome w) \<in> set (trace t)" by simp
    from n have only: "\<forall>r. EvReadFrom r \<in> set (trace t) \<longrightarrow> r = read_outcome w"
      by (simp add: inv_nc_def)
    from dat ok have k1: "read_deadline t = Some (time_Now w + updTimeout)"
      by (simp add: inv_data_def)
    from dat d1 have k2: "buffer t =
        (if EvReadFrom None \<in> set (trace t) then filled w else replicate udpBufferSize 0)"
      and k3: "filter is_received (tlog t) =
        (if EvReadFrom None \<in> set (trace t) then received w else [])"
      by (simp_all add: inv_data_def)
    show ?thesis
    proof (cases "arriving w")
      case (Inl e0)
      then have ro: "read_outcome w = Some e0" by (simp add: read_outcome_def)
      with only have "EvReadFrom None \<notin> set (trace t)" by auto
      with k1 k2 k3 rd rt bo ro rf Inl show ?thesis
        by (auto simp: ReadFrom_def)
    next
      case (Inr pa)
      obtain p x where pa: "pa = (p, x)" by (cases pa)
      from Inr have ro: "read_outcome w = None" by (simp add: read_outcome_def)
      with rd have "EvReadFrom None \<in> set (trace t)" by simp
      with k1 k2 k3 rd rt bo ro rf Inr pa show ?thesis
        by (auto simp: ReadFrom_def filled_def received_def)
    qed
  qed
  from a nf b c g h show ?thesis by blast
qed

theorem empty_payload_reaches_read_witness:
  "payload_empty (reader w_empty) \<and>
   Cancel \<notin> set ([] :: tick list) \<and>
   ResolveUDPAddr w_empty (address w_empty) = Inr peer \<and> DialUDP w_empty peer = None \<and>
   conn_SetReadDeadline w_empty (time_Now w_empty + updTimeout) = None \<and>
   ReadFrom (arriving w_empty) (replicate udpBufferSize 0) =
     (4, Some peer, None, [0x70, 0x6F, 0x6E, 0x67] @ replicate 1020 0) \<and>
   \<not> list_ex is_write (trace (client (NewKeba ''keba'') w_empty drain)) \<and>
   EvCopy 0 None \<in> set (trace (client (NewKeba ''keba'') w_empty drain)) \<and>
   sock (client (NewKeba ''keba'') w_empty ([] @ drain)) \<noteq> NoConn \<and>
   bpc (client (NewKeba ''keba'') w_empty ([] @ drain)) = B_Done \<and>
   read_deadline (client (NewKeba ''keba'') w_empty ([] @ drain)) =
     Some (time_Now w_empty + updTimeout) \<and>
   EvReadFrom None \<in> set (trace (client (NewKeba ''keba'') w_empty ([] @ drain))) \<and>
   buffer (client (NewKeba ''keba'') w_empty ([] @ drain)) =
     [0x70, 0x6F, 0x6E, 0x67] @ replicate 1020 0 \<and>
   filter is_received (tlog (client (NewKeba ''keba'') w_empty ([] @ drain))) =
     [PacketReceived 4 peer] \<and>
   ret (client (NewKeba ''keba'') w_empty ([] @ drain)) = Some None"
proof -
  have a: "payload_empty (reader w_empty)"
    by (simp add: payload_empty_def world_defs)
  have b: "Cancel \<notin> set ([] :: tick list)"
    "ResolveUDPAddr w_empty (address w_empty) = Inr peer" "DialUDP w_empty peer = None"
    "conn_SetReadDeadline w_empty (time_Now w_empty + updTimeout) = None"
    "ReadFrom (arriving w_empty) (replicate udpBufferSize 0) =
       (4, Some peer, None, [0x70, 0x6F, 0x6E, 0x67] @ replicate 1020 0)"
    by (simp_all add: world_defs ReadFrom_def udpBufferSize_def)
  have c: "EvCopy 0 None \<in> set (trace (client (NewKeba ''keba'') w_empty drain))"
    "sock (client (NewKeba ''keba'') w_empty ([] @ drain)) \<noteq> NoConn"
    by (simp_all add: empty_run)
  from empty_payload_reaches_read[OF a refl refl, of "NewKeba ''keba''" drain peer 4 "Some peer"
      None "[0x70, 0x6F, 0x6E, 0x67] @ replicate 1020 0"]
    empty_payload_reaches_read[OF a refl refl, of "NewKeba ''keba''" "[]" peer 4 "Some peer"
      None "[0x70, 0x6F, 0x6E, 0x67] @ replicate 1020 0"]
    a b c
  show ?thesis by simp
qed

theorem empty_payload_no_read_counterexample:
  "payload_empty (reader w_empty) \<and>
   ret (client (NewKeba ''keba'') w_empty (cancel_early @ drain)) =
     Some (Some context_Canceled) \<and>
   bpc (client (NewKeba ''keba'') w_empty (cancel_early @ drain)) = B_Done \<and>
   read_deadline (client (NewKeba ''keba'') w_empty (cancel_early @ drain)) = None \<and>
   \<not> list_ex is_read (trace (client (NewKeba ''keba'') w_empty (cancel_early @ drain))) \<and>
   payload_empty (reader w_undeadlined) \<and>
   ret (client (NewKeba ''keba'') w_undeadlined drain) =
     Some (Some (NetError ''set udp: invalid argument'')) \<and>
   bpc (client (NewKeba ''keba'') w_undeadlined drain) = B_Done \<and>
   read_deadline (client (NewKeba ''keba'') w_undeadlined drain) = None \<and>
   \<not> list_ex is_read (trace (client (NewKeba ''keba'') w_undeadlined drain))"
  by (simp add: empty_cancelled_run undeadlined_run)
     (simp add: payload_empty_def world_defs)

section \<open>The charger interface\<close>

text \<open>
  C9, as amended: \<open>Status\<close>, \<open>Enabled\<close>, \<open>Enable\<close> and \<open>MaxCurrent\<close> return,
  on every call, the error \<open>errors.New("not implemented")\<close>.  It differs from
  every error that \<open>client\<close> returns from the transport, where the calls of
  package \<open>net\<close> fail with errors of that package and the context reports
  \<open>Canceled\<close> or \<open>DeadlineExceeded\<close>: such an error is one of package
  \<open>net\<close>, one of the context, or the short or invalid write of \<open>io.Copy\<close>.
  It need not differ from an error of the caller's own reader, which an
  uncancelled call returns unchanged.  As stated, for every error of the
  exchange, the claim fails: with a reader that fails with an error of the same
  type and text, \<open>client\<close> returns the very error of the four methods.
\<close>

theorem not_implemented_differs_from_transport_errors:
  "snd (Status m) = Some (errors_New ''not implemented'') \<and>
   snd (Enabled m) = Some (errors_New ''not implemented'') \<and>
   Enable m enable = Some (errors_New ''not implemented'') \<and>
   MaxCurrent m current = Some (errors_New ''not implemented'') \<and>
   (lib_ok w \<and> ret (client m' w sched) = Some (Some e) \<and> e \<notin> set (reader_errors w) \<longrightarrow>
      (is_net e \<or> e = context_Canceled \<or> e = context_DeadlineExceeded \<or>
       e = io_ErrShortWrite \<or> e = io_errInvalidWrite) \<and>
      Some e \<noteq> snd (Status m) \<and> Some e \<noteq> snd (Enabled m) \<and>
      Some e \<noteq> Enable m enable \<and> Some e \<noteq> MaxCurrent m current) \<and>
   (reader w = ([], Some e) # rest \<and> e \<noteq> io_EOF \<and> Cancel \<notin> set sched \<and>
    ResolveUDPAddr w (address w) = Inr a \<and> DialUDP w a = None \<longrightarrow>
      ret (client m' w (sched @ drain)) = Some (Some e))"
proof -
  have a: "snd (Status m) = Some (errors_New ''not implemented'')"
    "snd (Enabled m) = Some (errors_New ''not implemented'')"
    "Enable m enable = Some (errors_New ''not implemented'')"
    "MaxCurrent m current = Some (errors_New ''not implemented'')"
    by (simp_all add: Status_def Enabled_def Enable_def MaxCurrent_def)
  have c: "(is_net e \<or> e = context_Canceled \<or> e = context_DeadlineExceeded \<or>
       e = io_ErrShortWrite \<or> e = io_errInvalidWrite) \<and>
      Some e \<noteq> snd (Status m) \<and> Some e \<noteq> snd (Enabled m) \<and>
      Some e \<noteq> Enable m enable \<and> Some e \<noteq> MaxCurrent m current"
    if h: "lib_ok w \<and> ret (client m' w sched) = Some (Some e) \<and> e \<notin> set (reader_errors w)"
  proof -
    let ?s = "client m' w sched"
    have "inv w ?s" by (rule inv_client)
    then have "inv_ctl ?s" by (simp add: inv_def)
    with h have "err ?s = Some e"
      by (cases "spc ?s") (auto simp: inv_ctl_def)
    moreover from h have "inv_err w ?s" by (simp add: inv_err_client)
    ultimately have "err_ok w e" by (auto simp: inv_err_def)
    with h have t: "transport_error e" by (simp add: err_ok_def)
    then have "e \<noteq> errors_New ''not implemented''" by (rule transport_error_differs)
    with t a show ?thesis by (simp add: transport_error_def)
  qed
  have d: "ret (client m' w (sched @ drain)) = Some (Some e)"
    if h: "reader w = ([], Some e) # rest \<and> e \<noteq> io_EOF \<and> Cancel \<notin> set sched \<and>
      ResolveUDPAddr w (address w) = Inr a \<and> DialUDP w a = None"
  proof -
    from h have "copy_outcome w = Some e" by (simp add: copy_outcome_def)
    then have "bg_outcome w = Some e" by (simp add: bg_outcome_def)
    with h uncancelled_returns(1)[of w a sched m'] show ?thesis by simp
  qed
  from a c d show ?thesis by blast
qed

theorem not_implemented_differs_from_transport_errors_witness:
  "lib_ok w_unresolved \<and>
   ret (client (NewKeba ''keba'') w_unresolved [Sup True]) =
     Some (Some (NetError ''address nohost: missing port in address'')) \<and>
   NetError ''address nohost: missing port in address'' \<notin> set (reader_errors w_unresolved) \<and>
   is_net (NetError ''address nohost: missing port in address'') \<and>
   Some (NetError ''address nohost: missing port in address'') \<noteq> snd (Status (NewKeba ''keba'')) \<and>
   Some (NetError ''address nohost: missing port in address'') \<noteq> snd (Enabled (NewKeba ''keba'')) \<and>
   Some (NetError ''address nohost: missing port in address'') \<noteq> Enable (NewKeba ''keba'') True \<and>
   Some (NetError ''address nohost: missing port in address'') \<noteq> MaxCurrent (NewKeba ''keba'') 16 \<and>
   lib_ok w_echo \<and>
   ret (client (NewKeba ''keba'') w_echo cancel_early) = Some (Some context_Canceled) \<and>
   context_Canceled \<notin> set (reader_errors w_echo) \<and>
   Some context_Canceled \<noteq> snd (Status (NewKeba ''keba'')) \<and>
   reader w_reader_fails = ([], Some (errors_New ''not implemented'')) # [] \<and>
   errors_New ''not implemented'' \<noteq> io_EOF \<and>
   Cancel \<notin> set ([] :: tick list) \<and>
   ResolveUDPAddr w_reader_fails (address w_reader_fails) = Inr peer \<and>
   DialUDP w_reader_fails peer = None \<and>
   ret (client (NewKeba ''keba'') w_reader_fails ([] @ drain)) =
     Some (Some (errors_New ''not implemented''))"
proof -
  have a: "lib_ok w_unresolved"
    "NetError ''address nohost: missing port in address'' \<notin> set (reader_errors w_unresolved)"
    "lib_ok w_echo" "context_Canceled \<notin> set (reader_errors w_echo)"
    by (simp_all add: lib_ok_def reader_errors_def world_defs updTimeout_def time_Second_def)
  have b: "ret (client (NewKeba ''keba'') w_unresolved [Sup True]) =
      Some (Some (NetError ''address nohost: missing port in address''))"
    by (simp add: unresolved_run)
  have c: "ret (client (NewKeba ''keba'') w_echo cancel_early) = Some (Some context_Canceled)"
    by (simp add: call_defs world_defs)
  have d: "reader w_reader_fails = ([], Some (errors_New ''not implemented'')) # []"
    "errors_New ''not implemented'' \<noteq> io_EOF" "Cancel \<notin> set ([] :: tick list)"
    "ResolveUDPAddr w_reader_fails (address w_reader_fails) = Inr peer"
    "DialUDP w_reader_fails peer = None"
    by (simp_all add: world_defs errors_New_def io_EOF_def)
  have n: "is_net (NetError ''address nohost: missing port in address'')" by simp
  from not_implemented_differs_from_transport_errors[of "NewKeba ''keba''" True 16 w_unresolved
      "NewKeba ''keba''" "[Sup True]" "NetError ''address nohost: missing port in address''"]
    not_implemented_differs_from_transport_errors[of "NewKeba ''keba''" True 16 w_echo
      "NewKeba ''keba''" cancel_early context_Canceled]
    not_implemented_differs_from_transport_errors[of "NewKeba ''keba''" True 16 w_reader_fails
      "NewKeba ''keba''" "[]" "errors_New ''not implemented''" "[]" peer]
    a b c d n
  show ?thesis by blast
qed

theorem reader_error_equals_not_implemented_counterexample:
  "lib_ok w_reader_fails \<and>
   ret (client (NewKeba ''keba'') w_reader_fails drain) = Some (snd (Status (NewKeba ''keba''))) \<and>
   ret (client (NewKeba ''keba'') w_reader_fails drain) = Some (snd (Enabled (NewKeba ''keba''))) \<and>
   ret (client (NewKeba ''keba'') w_reader_fails drain) = Some (Enable (NewKeba ''keba'') True) \<and>
   ret (client (NewKeba ''keba'') w_reader_fails drain) =
     Some (MaxCurrent (NewKeba ''keba'') 16) \<and>
   ret (client (NewKeba ''keba'') w_reader_fails drain) =
     Some (Some (errors_New ''not implemented''))"
  by (simp add: reader_fails_run Status_def Enabled_def Enable_def MaxCurrent_def)
     (simp add: lib_ok_def world_defs updTimeout_def time_Second_def)

text \<open>
  C10: for every Keba instance, \<open>Status\<close> returns the fixed status
  \<open>ChargeStatus("A")\<close> next to its error and \<open>Enabled\<close> returns the fixed
  value \<open>false\<close> next to its error; the value is a constant of the source and
  depends on nothing else: neither on the instance nor on any device or network
  state, of which the two methods take none.
\<close>

theorem Status_Enabled_constant:
  "fst (Status m) = ChargeStatus ''A'' \<and> snd (Status m) \<noteq> None \<and>
   fst (Enabled m) = False \<and> snd (Enabled m) \<noteq> None \<and>
   Status m = Status m' \<and> Enabled m = Enabled m'"
  by (simp add: Status_def Enabled_def)

end
